theory Spec2Isabelle
  imports Complex_Main "HOL-Library.AList" "HOL-Library.Word"
begin

section \<open>Python values, exceptions and dictionaries\<close>

text \<open>
  The controller is dynamically typed: what \<open>json.loads\<close> returns and what travels over
  the pipe are Python objects. A float is kept symbolically (the controller only stores
  and forwards floats, it never computes with them); \<open>float('inf')\<close> is \<open>PosInf\<close>.
  A dictionary is an association list in insertion order, as Python iterates it; a
  well-formed dictionary has distinct keys.
\<close>

datatype pyfloat = Finite real | PosInf | NegInf | NaN

datatype pyval =
    PNone
  | PBool bool
  | PInt int
  | PFloat pyfloat
  | PStr string
  | PList "pyval list"
  | PDict "(string \<times> pyval) list"

datatype pyerr = KeyError | TypeError | AttributeError | IndexError | ValueError | CodecError

text \<open>\<open>obj[key]\<close> with a string key: only a dictionary can be indexed that way.\<close>

fun subscript :: "pyval \<Rightarrow> string \<Rightarrow> pyerr + pyval" where
  "subscript (PDict kvs) k = (case map_of kvs k of None \<Rightarrow> Inl KeyError | Some v \<Rightarrow> Inr v)"
| "subscript _ k = Inl TypeError"

text \<open>\<open>obj.items()\<close>: only a dictionary has the method.\<close>

fun items :: "pyval \<Rightarrow> pyerr + (string \<times> pyval) list" where
  "items (PDict kvs) = Inr kvs"
| "items _ = Inl AttributeError"

section \<open>Constants of the controller\<close>

definition str_motor_order :: "string list" where
  "str_motor_order =
     [''fl_gimbal'', ''ml_gimbal'', ''rl_gimbal'', ''fr_gimbal'', ''mr_gimbal'', ''rr_gimbal'']"

definition drv_motor_order :: "string list" where
  "drv_motor_order =
     [''fl_drive'', ''ml_drive'', ''rl_drive'', ''fr_drive'', ''mr_drive'', ''rr_drive'']"

definition act_id_motor_group_index_map :: "(string \<times> nat) list" where
  "act_id_motor_group_index_map =
     [(''DrvFL'', 0), (''DrvML'', 1), (''DrvRL'', 2), (''DrvFR'', 3), (''DrvMR'', 4),
      (''DrvRR'', 5),
      (''StrFL'', 0), (''StrML'', 1), (''StrRL'', 2), (''StrFR'', 3), (''StrMR'', 4),
      (''StrRR'', 5),
      (''ArmBase'', 0), (''ArmShoulder'', 1), (''ArmElbow'', 2), (''ArmWrist'', 3),
      (''ArmGrabber'', 4)]"

text \<open>The seventeen recognised actuator ids are the keys of the table.\<close>

definition known_act_id :: "string \<Rightarrow> bool" where
  "known_act_id act_id = (act_id \<in> set (map fst act_id_motor_group_index_map))"

section \<open>Motors, the command socket and the rover\<close>

text \<open>
  A motor of the simulator is seen through its two setters; the model keeps the last
  value given to each. Every call on a motor and every send on the command reply socket
  is also appended to \<open>calls\<close>, in the order the calls are made, so that the relative
  order of acknowledgement and actuation can be stated.
\<close>

record motor =
  position :: pyval
  velocity :: pyval

datatype motor_ref = StrMotor nat | DrvMotor nat

datatype call =
    SendString string
  | SetPosition motor_ref pyval
  | SetVelocity motor_ref pyval

record world =
  str_motors :: "motor list"
  drv_motors :: "motor list"
  calls :: "call list"

definition str_setPosition :: "nat \<Rightarrow> pyval \<Rightarrow> world \<Rightarrow> world" where
  "str_setPosition i v w =
     w\<lparr>str_motors := (str_motors w)[i := (str_motors w ! i)\<lparr>position := v\<rparr>],
       calls := calls w @ [SetPosition (StrMotor i) v]\<rparr>"

definition drv_setPosition :: "nat \<Rightarrow> pyval \<Rightarrow> world \<Rightarrow> world" where
  "drv_setPosition i v w =
     w\<lparr>drv_motors := (drv_motors w)[i := (drv_motors w ! i)\<lparr>position := v\<rparr>],
       calls := calls w @ [SetPosition (DrvMotor i) v]\<rparr>"

definition drv_setVelocity :: "nat \<Rightarrow> pyval \<Rightarrow> world \<Rightarrow> world" where
  "drv_setVelocity i v w =
     w\<lparr>drv_motors := (drv_motors w)[i := (drv_motors w ! i)\<lparr>velocity := v\<rparr>],
       calls := calls w @ [SetVelocity (DrvMotor i) v]\<rparr>"

definition send_string :: "string \<Rightarrow> world \<Rightarrow> world" where
  "send_string s w = w\<lparr>calls := calls w @ [SendString s]\<rparr>"

section \<open>\<open>actuate_mech_dems\<close> and \<open>stop\<close>\<close>

text \<open>
  The two loops of \<open>actuate_mech_dems\<close>. An exception leaves the loop at once; the
  setpoints written before it stay written, so the world is returned with the error.
  \<open>act_id[:3]\<close> is \<open>take 3 act_id\<close>; the table lookup raises \<open>KeyError\<close> on an id it
  does not hold and the list index raises \<open>IndexError\<close> outside the list.
\<close>

fun actuate_pos :: "(string \<times> pyval) list \<Rightarrow> world \<Rightarrow> pyerr option \<times> world" where
  "actuate_pos [] w = (None, w)"
| "actuate_pos ((act_id, position_rad) # rest) w =
     (if take 3 act_id = ''Str'' then
        (case map_of act_id_motor_group_index_map act_id of
           None \<Rightarrow> (Some KeyError, w)
         | Some i \<Rightarrow>
             if i < length (str_motors w)
             then actuate_pos rest (str_setPosition i position_rad w)
             else (Some IndexError, w))
      else actuate_pos rest w)"

fun actuate_speed :: "(string \<times> pyval) list \<Rightarrow> world \<Rightarrow> pyerr option \<times> world" where
  "actuate_speed [] w = (None, w)"
| "actuate_speed ((act_id, speed_rads) # rest) w =
     (if take 3 act_id = ''Drv'' then
        (case map_of act_id_motor_group_index_map act_id of
           None \<Rightarrow> (Some KeyError, w)
         | Some i \<Rightarrow>
             if i < length (drv_motors w)
             then actuate_speed rest
                    (drv_setVelocity i speed_rads (drv_setPosition i (PFloat PosInf) w))
             else (Some IndexError, w))
      else actuate_speed rest w)"

definition actuate_mech_dems :: "pyval \<Rightarrow> world \<Rightarrow> pyerr option \<times> world" where
  "actuate_mech_dems dems w =
     (case subscript dems ''pos_rad'' of
        Inl e \<Rightarrow> (Some e, w)
      | Inr p \<Rightarrow>
          (case items p of
             Inl e \<Rightarrow> (Some e, w)
           | Inr pos \<Rightarrow>
               (case actuate_pos pos w of
                  (Some e, w1) \<Rightarrow> (Some e, w1)
                | (None, w1) \<Rightarrow>
                    (case subscript dems ''speed_rads'' of
                       Inl e \<Rightarrow> (Some e, w1)
                     | Inr s \<Rightarrow>
                         (case items s of
                            Inl e \<Rightarrow> (Some e, w1)
                          | Inr spd \<Rightarrow> actuate_speed spd w1)))))"

definition stop :: "world \<Rightarrow> world" where
  "stop w = fold (\<lambda>i. drv_setVelocity i (PFloat (Finite 0))) [0..<length (drv_motors w)] w"

section \<open>\<open>handle_mech\<close>\<close>

text \<open>
  What the \<open>try\<close> block of \<open>handle_mech\<close> ends with: \<open>recv_string\<close> raises \<open>zmq.Again\<close>
  (nothing pending), it raises another \<open>ZMQError\<close>, the block raises any other exception
  (a payload that is not JSON makes \<open>json.loads\<close> do so), or \<open>json.loads\<close> returns the
  decoded value.
\<close>

datatype try_recv = RaisedAgain | RaisedZMQError | RaisedException | Loaded pyval

text \<open>
  \<open>handle_mech\<close> returns \<open>Inr\<close> of its return value, or \<open>Inl\<close> of the exception that
  \<open>actuate_mech_dems\<close> raised (nothing catches it).
\<close>

definition handle_mech :: "try_recv \<Rightarrow> world \<Rightarrow> (pyerr + bool) \<times> world" where
  "handle_mech r w =
     (let (stop_flag, mech_dems) =
            (case r of
               Loaded v \<Rightarrow> (False, v)
             | RaisedAgain \<Rightarrow> (False, PNone)
             | RaisedZMQError \<Rightarrow> (True, PNone)
             | RaisedException \<Rightarrow> (True, PNone))
      in if mech_dems = PNone then
           (if stop_flag then (Inr True, stop w) else (Inr True, w))
         else
           (case actuate_mech_dems mech_dems (send_string ''\"DemsOk\"'' w) of
              (Some e, w') \<Rightarrow> (Inl e, w')
            | (None, w') \<Rightarrow> (Inr True, w')))"

section \<open>The camera side\<close>

subsection \<open>Frame bundles\<close>

text \<open>
  \<open>handle_cam_req\<close> answers a forwarded request with one dictionary \<open>cam_data\<close>: the key
  \<open>'format'\<close> holds the request's format specification, every other key is a camera id
  and holds the dictionary \<open>{'raw', 'timestamp', 'height', 'width'}\<close> of that camera.
\<close>

type_synonym byte = "8 word"

record frame =
  raw :: "byte list"
  timestamp :: int
  height :: nat
  width :: nat

datatype cam_val = FormatSpec pyval | Frame frame

text \<open>A camera device: what \<open>getImage\<close>, \<open>getHeight\<close> and \<open>getWidth\<close> return.\<close>

record camera =
  getImage :: "byte list"
  getHeight :: nat
  getWidth :: nat

text \<open>
  \<open>for cam_id in cam_req['cameras']\<close>: a list yields its elements, a string its
  characters, a dictionary its keys; nothing else that JSON decodes to can be iterated.
\<close>

fun iterate :: "pyval \<Rightarrow> pyerr + pyval list" where
  "iterate (PList xs) = Inr xs"
| "iterate (PStr s) = Inr (map (\<lambda>c. PStr [c]) s)"
| "iterate (PDict kvs) = Inr (map (\<lambda>kv. PStr (fst kv)) kvs)"
| "iterate _ = Inl TypeError"

text \<open>
  The loop of \<open>handle_cam_req\<close>. \<open>cam_data[cam_id] = {}\<close> needs a hashable key (a list or a
  dictionary raises \<open>TypeError\<close>); \<open>phobos.cameras[cam_id]\<close> raises \<open>KeyError\<close> for
  anything that is not the id of a camera. \<open>clock n\<close> is the reading of \<open>time.time()\<close>,
  in milliseconds, at the \<open>n\<close>-th capture of the call.
\<close>

fun acquire ::
  "(string \<times> camera) list \<Rightarrow> (nat \<Rightarrow> int) \<Rightarrow> nat \<Rightarrow> pyval list \<Rightarrow>
   (string \<times> cam_val) list \<Rightarrow> pyerr + (string \<times> cam_val) list" where
  "acquire cameras clock n [] cam_data = Inr cam_data"
| "acquire cameras clock n (PStr cam_id # rest) cam_data =
     (case map_of cameras cam_id of
        None \<Rightarrow> Inl KeyError
      | Some cam \<Rightarrow>
          acquire cameras clock (Suc n) rest
            (AList.update cam_id
               (Frame \<lparr>raw = getImage cam, timestamp = clock n,
                       height = getHeight cam, width = getWidth cam\<rparr>)
               cam_data))"
| "acquire cameras clock n (PList xs # rest) cam_data = Inl TypeError"
| "acquire cameras clock n (PDict kvs # rest) cam_data = Inl TypeError"
| "acquire cameras clock n (other # rest) cam_data = Inl KeyError"

text \<open>
  \<open>handle_cam_req\<close>: \<open>poll\<close> is what the pipe holds (\<open>None\<close> when \<open>cam_pipe.poll()\<close> is
  false). The result is the bundle sent back over the pipe, if any.
\<close>

definition handle_cam_req ::
  "(string \<times> camera) list \<Rightarrow> (nat \<Rightarrow> int) \<Rightarrow> pyval option \<Rightarrow>
   pyerr + (string \<times> cam_val) list option" where
  "handle_cam_req cameras clock poll =
     (case poll of
        None \<Rightarrow> Inr None
      | Some cam_req \<Rightarrow>
          (case subscript cam_req ''format'' of
             Inl e \<Rightarrow> Inl e
           | Inr fmt \<Rightarrow>
               (case subscript cam_req ''cameras'' of
                  Inl e \<Rightarrow> Inl e
                | Inr cs \<Rightarrow>
                    (case iterate cs of
                       Inl e \<Rightarrow> Inl e
                     | Inr ids \<Rightarrow>
                         (case acquire cameras clock 0 ids [(''format'', FormatSpec fmt)] of
                            Inl e \<Rightarrow> Inl e
                          | Inr cam_data \<Rightarrow> Inr (Some cam_data))))))"

subsection \<open>The encoder: \<open>handle_cam_send\<close>\<close>

text \<open>
  \<open>np.frombuffer(raw, np.uint8).reshape((height, width, 4))\<close>: row-major, so the channel
  \<open>c\<close> of the pixel in row \<open>y\<close> and column \<open>x\<close> is byte \<open>(y * width + x) * 4 + c\<close>;
  \<open>reshape\<close> raises \<open>ValueError\<close> unless the buffer has exactly \<open>height * width * 4\<close>
  bytes. \<open>np_array[..., [2,1,0,3]]\<close> picks the channels 2, 1, 0, 3 of every pixel.
\<close>

definition reshape :: "byte list \<Rightarrow> nat \<Rightarrow> nat \<Rightarrow> pyerr + byte list list list" where
  "reshape buf h w =
     (if length buf = h * w * 4
      then Inr (map (\<lambda>y. map (\<lambda>x. map (\<lambda>c. buf ! ((y * w + x) * 4 + c)) [0..<4]) [0..<w])
                    [0..<h])
      else Inl ValueError)"

definition reorder :: "byte list list list \<Rightarrow> byte list list list" where
  "reorder np_array = map (map (\<lambda>px. map (\<lambda>c. px ! c) [2, 1, 0, 3])) np_array"

text \<open>\<open>Image.fromarray\<close> of a \<open>height \<times> width \<times> 4\<close> array of bytes: an RGBA image.\<close>

record image =
  img_height :: nat
  img_width :: nat
  img_pixels :: "byte list list list"

text \<open>
  The format name passed to \<open>image.save\<close>: the specification itself when it is a string,
  otherwise \<open>list(spec.keys())[0]\<close>. A frame dictionary has \<open>'raw'\<close> as its first key.
\<close>

fun format_name :: "cam_val \<Rightarrow> pyerr + string" where
  "format_name (FormatSpec (PStr s)) = Inr s"
| "format_name (FormatSpec (PDict [])) = Inl IndexError"
| "format_name (FormatSpec (PDict ((k, v) # kvs))) = Inr k"
| "format_name (FormatSpec _) = Inl AttributeError"
| "format_name (Frame d) = Inr ''raw''"

record 'txt reply_entry =
  r_timestamp :: int
  r_format :: cam_val
  r_b64_data :: 'txt

text \<open>
  The body of the loop for one camera. The image codec (\<open>Image.save\<close> into a byte
  buffer) and \<open>base64.b64encode\<close> belong to libraries; they are the parameters
  \<open>image_save\<close> (format name and image to the encoded bytes, or an exception) and
  \<open>b64encode\<close>. \<open>data['raw']\<close> on a value that is not a frame fails in the subscript or,
  at the latest, in \<open>np.frombuffer\<close>.
\<close>

definition encode_camera ::
  "(string \<Rightarrow> image \<Rightarrow> pyerr + 'enc) \<Rightarrow> ('enc \<Rightarrow> 'txt) \<Rightarrow> (string \<times> cam_val) list \<Rightarrow>
   cam_val \<Rightarrow> pyerr + 'txt reply_entry" where
  "encode_camera image_save b64encode cam_data data =
     (case data of
        FormatSpec v \<Rightarrow>
          (case subscript v ''raw'' of Inl e \<Rightarrow> Inl e | Inr x \<Rightarrow> Inl TypeError)
      | Frame d \<Rightarrow>
          (case reshape (raw d) (height d) (width d) of
             Inl e \<Rightarrow> Inl e
           | Inr np_array \<Rightarrow>
               (case map_of cam_data ''format'' of
                  None \<Rightarrow> Inl KeyError
                | Some fmt \<Rightarrow>
                    (case format_name fmt of
                       Inl e \<Rightarrow> Inl e
                     | Inr name \<Rightarrow>
                         (case image_save name
                                 \<lparr>img_height = height d, img_width = width d,
                                  img_pixels = reorder np_array\<rparr> of
                            Inl e \<Rightarrow> Inl e
                          | Inr img_bytes \<Rightarrow>
                              Inr \<lparr>r_timestamp = timestamp d, r_format = fmt,
                                   r_b64_data = b64encode img_bytes\<rparr>)))))"

fun cam_send_loop ::
  "(string \<Rightarrow> image \<Rightarrow> pyerr + 'enc) \<Rightarrow> ('enc \<Rightarrow> 'txt) \<Rightarrow> (string \<times> cam_val) list \<Rightarrow>
   (string \<times> cam_val) list \<Rightarrow> (string \<times> 'txt reply_entry) list \<Rightarrow>
   pyerr + (string \<times> 'txt reply_entry) list" where
  "cam_send_loop image_save b64encode cam_data [] res = Inr res"
| "cam_send_loop image_save b64encode cam_data ((cam_id, data) # rest) res =
     (if cam_id = ''format'' then cam_send_loop image_save b64encode cam_data rest res
      else
        (case encode_camera image_save b64encode cam_data data of
           Inl e \<Rightarrow> Inl e
         | Inr entry \<Rightarrow>
             cam_send_loop image_save b64encode cam_data rest (AList.update cam_id entry res)))"

text \<open>\<open>json.dumps\<close> cannot serialise the bytes of a frame; what JSON decoded it can.\<close>

fun json_serialisable :: "cam_val \<Rightarrow> bool" where
  "json_serialisable (FormatSpec v) = True"
| "json_serialisable (Frame d) = False"

text \<open>
  \<open>handle_cam_send\<close> returns \<open>Inr\<close> of the reply object whose JSON text is sent on the
  camera reply socket, or \<open>Inl\<close> of the exception raised before anything is sent.
\<close>

definition handle_cam_send ::
  "(string \<Rightarrow> image \<Rightarrow> pyerr + 'enc) \<Rightarrow> ('enc \<Rightarrow> 'txt) \<Rightarrow> (string \<times> cam_val) list \<Rightarrow>
   pyerr + (string \<times> 'txt reply_entry) list" where
  "handle_cam_send image_save b64encode cam_data =
     (case cam_send_loop image_save b64encode cam_data cam_data [] of
        Inl e \<Rightarrow> Inl e
      | Inr res \<Rightarrow>
          if list_all (\<lambda>kv. json_serialisable (r_format (snd kv))) res
          then Inr res else Inl TypeError)"

subsection \<open>The relay loop: \<open>cam_process\<close>\<close>

text \<open>
  One turn of the loop of \<open>cam_process\<close> reads the pipe (\<open>None\<close>: \<open>poll()\<close> is false) and,
  unless it skips that, the client socket; the list of these readings stands for the
  environment, and the loop runs as long as the list lasts. The events are what the
  process does to its two channels, in order.
\<close>

datatype pipe_msg = MsgStr string | MsgDict "(string \<times> cam_val) list"

datatype 'txt cam_event =
    ClientRecv try_recv
  | Forward pyval
  | Reply "(string \<times> 'txt reply_entry) list"
  | ClosePipe

datatype cam_exit = Stopped | Crashed pyerr | Running bool

definition emit :: "'e list \<Rightarrow> 'e list \<times> 'x \<Rightarrow> 'e list \<times> 'x" where
  "emit evs r = (evs @ fst r, snd r)"

fun cam_process_loop ::
  "(string \<Rightarrow> image \<Rightarrow> pyerr + 'enc) \<Rightarrow> ('enc \<Rightarrow> 'txt) \<Rightarrow> bool \<Rightarrow>
   (pipe_msg option \<times> try_recv) list \<Rightarrow> 'txt cam_event list \<times> cam_exit" where
  "cam_process_loop image_save b64encode handling_req [] = ([], Running handling_req)"
| "cam_process_loop image_save b64encode handling_req ((msg, client) # rest) =
     (if msg = Some (MsgStr ''STOP'') then ([ClosePipe], Stopped)
      else
        (case (case msg of
                 Some (MsgDict cam_data) \<Rightarrow>
                   (case handle_cam_send image_save b64encode cam_data of
                      Inl e \<Rightarrow> Inl e
                    | Inr reply \<Rightarrow> Inr ([Reply reply], False))
               | _ \<Rightarrow> Inr ([], handling_req)) of
           Inl e \<Rightarrow> ([], Crashed e)
         | Inr (sent, handling) \<Rightarrow>
             if handling
             then emit sent (cam_process_loop image_save b64encode handling rest)
             else
               (let cam_req = (case client of Loaded v \<Rightarrow> v | _ \<Rightarrow> PNone)
                in if cam_req = PNone
                   then emit (sent @ [ClientRecv client])
                          (cam_process_loop image_save b64encode handling rest)
                   else emit (sent @ [ClientRecv client, Forward cam_req])
                          (cam_process_loop image_save b64encode True rest))))"

definition cam_process ::
  "(string \<Rightarrow> image \<Rightarrow> pyerr + 'enc) \<Rightarrow> ('enc \<Rightarrow> 'txt) \<Rightarrow>
   (pipe_msg option \<times> try_recv) list \<Rightarrow> 'txt cam_event list \<times> cam_exit" where
  "cam_process image_save b64encode inputs =
     cam_process_loop image_save b64encode False inputs"

section \<open>One turn of the main loop\<close>

text \<open>
  The body of the \<open>while\<close> loop of \<open>run\<close>: \<open>run_controller\<close> is assigned the result of
  \<open>handle_mech\<close> and then, after \<open>handle_cam_req\<close>, the result of \<open>step\<close>, which is
  \<open>phobos.step(...) != -1\<close>. The turn returns the flag the loop tests next, the world and
  what was sent back over the pipe.
\<close>

definition run_turn ::
  "(string \<times> camera) list \<Rightarrow> (nat \<Rightarrow> int) \<Rightarrow> try_recv \<Rightarrow> pyval option \<Rightarrow> int \<Rightarrow> world \<Rightarrow>
   (pyerr + bool) \<times> world \<times> (string \<times> cam_val) list option" where
  "run_turn cameras clock r poll step_result w =
     (case handle_mech r w of
        (Inl e, w') \<Rightarrow> (Inl e, w', None)
      | (Inr run_controller, w') \<Rightarrow>
          (case handle_cam_req cameras clock poll of
             Inl e \<Rightarrow> (Inl e, w', None)
           | Inr sent \<Rightarrow> (Inr (step_result \<noteq> - 1), w', sent)))"

section \<open>Observations on call and event sequences\<close>

fun is_motor_call :: "call \<Rightarrow> bool" where
  "is_motor_call (SendString s) = False"
| "is_motor_call (SetPosition m v) = True"
| "is_motor_call (SetVelocity m v) = True"

text \<open>
  \<open>relay_ok in_flight evs\<close> reads a sequence of events of the relay, \<open>in_flight\<close> telling
  whether a forwarded request still waits for its reply: no receive on the client socket
  and no further forward may happen while one does; a reply ends the wait.
\<close>

fun relay_ok :: "bool \<Rightarrow> 'txt cam_event list \<Rightarrow> bool" where
  "relay_ok in_flight [] = True"
| "relay_ok in_flight (ClientRecv r # evs) = (\<not> in_flight \<and> relay_ok in_flight evs)"
| "relay_ok in_flight (Forward q # evs) = (\<not> in_flight \<and> relay_ok True evs)"
| "relay_ok in_flight (Reply rep # evs) = relay_ok False evs"
| "relay_ok in_flight (ClosePipe # evs) = relay_ok in_flight evs"

text \<open>
  When the encoder has what it needs for an entry of a bundle: the entry is the format
  entry, or it is a frame whose buffer has the size its dimensions ask for
  (\<open>frame_well_sized\<close>) and which the codec encodes under the given format name
  (\<open>frame_encodable\<close>). \<open>frames_encodable\<close> says so of a whole bundle, for the format
  name its format entry gives.
\<close>

definition frame_well_sized :: "string \<times> cam_val \<Rightarrow> bool" where
  "frame_well_sized kv =
     (fst kv = ''format'' \<or>
      (case snd kv of
         Frame d \<Rightarrow> length (raw d) = height d * width d * 4
       | FormatSpec v \<Rightarrow> False))"

definition frame_encodable ::
  "(string \<Rightarrow> image \<Rightarrow> pyerr + 'enc) \<Rightarrow> string \<Rightarrow> string \<times> cam_val \<Rightarrow> bool" where
  "frame_encodable image_save name kv =
     (fst kv = ''format'' \<or>
      (case snd kv of
         Frame d \<Rightarrow>
           (case reshape (raw d) (height d) (width d) of
              Inr np_array \<Rightarrow>
                (case image_save name
                        \<lparr>img_height = height d, img_width = width d,
                         img_pixels = reorder np_array\<rparr> of
                   Inr img_bytes \<Rightarrow> True
                 | Inl e \<Rightarrow> False)
            | Inl e \<Rightarrow> False)
       | FormatSpec v \<Rightarrow> False))"

definition frames_encodable ::
  "(string \<Rightarrow> image \<Rightarrow> pyerr + 'enc) \<Rightarrow> (string \<times> cam_val) list \<Rightarrow> bool" where
  "frames_encodable image_save cam_data =
     (case map_of cam_data ''format'' of
        Some (FormatSpec spec) \<Rightarrow>
          (case format_name (FormatSpec spec) of
             Inr name \<Rightarrow> list_all (frame_encodable image_save name) cam_data
           | Inl e \<Rightarrow> False)
      | _ \<Rightarrow> False)"

section \<open>Concrete inputs\<close>

definition world0 :: world where
  "world0 =
     \<lparr>str_motors =
        [\<lparr>position = PFloat (Finite 0), velocity = PFloat (Finite 1)\<rparr>,
         \<lparr>position = PFloat (Finite 0), velocity = PFloat (Finite 1)\<rparr>,
         \<lparr>position = PFloat (Finite 0), velocity = PFloat (Finite 1)\<rparr>,
         \<lparr>position = PFloat (Finite 0), velocity = PFloat (Finite 1)\<rparr>,
         \<lparr>position = PFloat (Finite 0), velocity = PFloat (Finite 1)\<rparr>,
         \<lparr>position = PFloat (Finite 0), velocity = PFloat (Finite 1)\<rparr>],
      drv_motors =
        [\<lparr>position = PFloat PosInf, velocity = PFloat (Finite 3)\<rparr>,
         \<lparr>position = PFloat PosInf, velocity = PFloat (Finite 3)\<rparr>,
         \<lparr>position = PFloat PosInf, velocity = PFloat (Finite 3)\<rparr>,
         \<lparr>position = PFloat PosInf, velocity = PFloat (Finite 3)\<rparr>,
         \<lparr>position = PFloat PosInf, velocity = PFloat (Finite 3)\<rparr>,
         \<lparr>position = PFloat PosInf, velocity = PFloat (Finite 3)\<rparr>],
      calls = []\<rparr>"

text \<open>\<open>{"pos_rad": {"StrFL": 0.5, "DrvML": 9, "ArmBase": 1}, "speed_rads": {"DrvFL": 2.0, "StrRR": 7}}\<close>\<close>

definition pos_known :: "(string \<times> pyval) list" where
  "pos_known = [(''StrFL'', PFloat (Finite (1 / 2))), (''DrvML'', PInt 9), (''ArmBase'', PInt 1)]"

definition spd_known :: "(string \<times> pyval) list" where
  "spd_known = [(''DrvFL'', PFloat (Finite 2)), (''StrRR'', PInt 7)]"

definition dems_known :: pyval where
  "dems_known = PDict [(''pos_rad'', PDict pos_known), (''speed_rads'', PDict spd_known)]"

text \<open>\<open>{"pos_rad": {"Foo": 1, "DrvZZ": 2, "StrFL": 0.5}, "speed_rads": {"StrYY": 3, "DrvFL": 2.0}}\<close>\<close>

definition pos_other :: "(string \<times> pyval) list" where
  "pos_other = [(''Foo'', PInt 1), (''DrvZZ'', PInt 2), (''StrFL'', PFloat (Finite (1 / 2)))]"

definition spd_other :: "(string \<times> pyval) list" where
  "spd_other = [(''StrYY'', PInt 3), (''DrvFL'', PFloat (Finite 2))]"

definition dems_other :: pyval where
  "dems_other = PDict [(''pos_rad'', PDict pos_other), (''speed_rads'', PDict spd_other)]"

text \<open>\<open>{"pos_rad": {"StrFL": 0.5, "StrXX": 1.0, "StrML": 0.25}, "speed_rads": {}}\<close>\<close>

definition dems_unknown_str :: pyval where
  "dems_unknown_str =
     PDict [(''pos_rad'', PDict [(''StrFL'', PFloat (Finite (1 / 2))),
                                 (''StrXX'', PFloat (Finite 1)),
                                 (''StrML'', PFloat (Finite (1 / 4)))]),
            (''speed_rads'', PDict [])]"

text \<open>\<open>{"speed_rads": {"DrvFL": 2.0}}\<close>, and the same with an empty \<open>"pos_rad"\<close> beside it.\<close>

definition dems_speed_only :: pyval where
  "dems_speed_only = PDict [(''speed_rads'', PDict [(''DrvFL'', PFloat (Finite 2))])]"

definition dems_empty_pos :: pyval where
  "dems_empty_pos =
     PDict [(''pos_rad'', PDict []), (''speed_rads'', PDict [(''DrvFL'', PFloat (Finite 2))])]"

text \<open>
  A camera with a picture of one row and two columns, the request
  \<open>{"cameras": ["LeftNav"], "format": "png"}\<close>, and the bundle that answers it when the
  clock reads \<open>1000\<close>.
\<close>

definition cameras0 :: "(string \<times> camera) list" where
  "cameras0 = [(''LeftNav'', \<lparr>getImage = [1, 2, 3, 4, 5, 6, 7, 8], getHeight = 1, getWidth = 2\<rparr>)]"

definition request_png :: pyval where
  "request_png = PDict [(''cameras'', PList [PStr ''LeftNav'']), (''format'', PStr ''png'')]"

definition frame_1x2 :: frame where
  "frame_1x2 = \<lparr>raw = [1, 2, 3, 4, 5, 6, 7, 8], timestamp = 1000, height = 1, width = 2\<rparr>"

definition bundle_png :: "(string \<times> cam_val) list" where
  "bundle_png = [(''format'', FormatSpec (PStr ''png'')), (''LeftNav'', Frame frame_1x2)]"

text \<open>
  A stand-in for the codec and for base64, to run the encoder on: the "encoded bytes" of
  an image are the image itself, only the format name \<open>png\<close> is known, and the transport
  encoding changes nothing.
\<close>

definition plain_save :: "string \<Rightarrow> image \<Rightarrow> pyerr + image" where
  "plain_save name img = (if name = ''png'' then Inr img else Inl CodecError)"

definition plain_b64 :: "image \<Rightarrow> image" where
  "plain_b64 img_bytes = img_bytes"

text \<open>The decoders a client would use against them.\<close>

definition plain_b64decode :: "image \<Rightarrow> image" where
  "plain_b64decode b64_data = b64_data"

definition plain_open :: "image \<Rightarrow> image" where
  "plain_open img_bytes = img_bytes"

definition reply_png :: "(string \<times> image reply_entry) list" where
  "reply_png =
     [(''LeftNav'',
       \<lparr>r_timestamp = 1000, r_format = FormatSpec (PStr ''png''),
        r_b64_data = \<lparr>img_height = 1, img_width = 2,
                      img_pixels = [[[3, 2, 1, 4], [7, 6, 5, 8]]]\<rparr>\<rparr>)]"

text \<open>
  A codec that, like the one the source calls, raises on an image without pixels, and
  a frame of no rows and no columns: its buffer has the \<open>0 * 0 * 4\<close> bytes asked for.
\<close>

definition strict_save :: "string \<Rightarrow> image \<Rightarrow> pyerr + image" where
  "strict_save name img =
     (if name = ''png'' \<and> 0 < img_height img \<and> 0 < img_width img then Inr img
      else Inl CodecError)"

definition frame_0x0 :: frame where
  "frame_0x0 = \<lparr>raw = [], timestamp = 1000, height = 0, width = 0\<rparr>"

definition bundle_empty :: "(string \<times> cam_val) list" where
  "bundle_empty = [(''format'', FormatSpec (PStr ''png'')), (''LeftNav'', Frame frame_0x0)]"

text \<open>
  Five turns of the relay: a request arrives; a second one waits at the socket while
  the first is with the control loop; the bundle comes back; the second request is
  taken; the control loop says \<open>'STOP'\<close>.
\<close>

definition relay_inputs :: "(pipe_msg option \<times> try_recv) list" where
  "relay_inputs =
     [(None, Loaded request_png),
      (None, Loaded request_png),
      (Some (MsgDict bundle_png), RaisedAgain),
      (None, Loaded request_png),
      (Some (MsgStr ''STOP''), RaisedAgain)]"

section \<open>Auxiliary facts: the command side\<close>

subsection \<open>The loop of \<open>stop\<close>\<close>

lemma stop_fold:
  "n \<le> length (drv_motors w) \<Longrightarrow>
   fold (\<lambda>i. drv_setVelocity i v) [0..<n] w =
     w\<lparr>drv_motors := map (\<lambda>m. m\<lparr>velocity := v\<rparr>) (take n (drv_motors w)) @ drop n (drv_motors w),
       calls := calls w @ map (\<lambda>i. SetVelocity (DrvMotor i) v) [0..<n]\<rparr>"
proof (induction n)
  case 0
  then show ?case by simp
next
  case (Suc n)
  then have n: "n < length (drv_motors w)" by simp
  have "(map (\<lambda>m. m\<lparr>velocity := v\<rparr>) (take n (drv_motors w)) @ drop n (drv_motors w))
          [n := ((map (\<lambda>m. m\<lparr>velocity := v\<rparr>) (take n (drv_motors w)) @ drop n (drv_motors w)) ! n)\<lparr>velocity := v\<rparr>]
        = map (\<lambda>m. m\<lparr>velocity := v\<rparr>) (take (Suc n) (drv_motors w)) @ drop (Suc n) (drv_motors w)"
    using n by (simp add: list_update_append nth_append take_Suc_conv_app_nth
                          Cons_nth_drop_Suc [symmetric])
  with Suc n show ?case
    by (simp add: drv_setVelocity_def)
qed

lemma stop_eq:
  "stop w = w\<lparr>drv_motors := map (\<lambda>m. m\<lparr>velocity := PFloat (Finite 0)\<rparr>) (drv_motors w),
              calls := calls w @ map (\<lambda>i. SetVelocity (DrvMotor i) (PFloat (Finite 0)))
                                     [0..<length (drv_motors w)]\<rparr>"
  by (simp add: stop_def stop_fold)

subsection \<open>The index table\<close>


lemma str_index_bound:
  "take 3 a = ''Str'' \<Longrightarrow> map_of act_id_motor_group_index_map a = Some i \<Longrightarrow> i < 6"
  by (auto simp: act_id_motor_group_index_map_def split: if_splits)

lemma str_index_inj:
  "take 3 a = ''Str'' \<Longrightarrow> take 3 b = ''Str'' \<Longrightarrow>
   map_of act_id_motor_group_index_map a = Some i \<Longrightarrow>
   map_of act_id_motor_group_index_map b = Some i \<Longrightarrow> a = b"
  by (auto simp: act_id_motor_group_index_map_def split: if_splits)

lemma drv_index_bound:
  "take 3 a = ''Drv'' \<Longrightarrow> map_of act_id_motor_group_index_map a = Some i \<Longrightarrow> i < 6"
  by (auto simp: act_id_motor_group_index_map_def split: if_splits)

lemma drv_index_inj:
  "take 3 a = ''Drv'' \<Longrightarrow> take 3 b = ''Drv'' \<Longrightarrow>
   map_of act_id_motor_group_index_map a = Some i \<Longrightarrow>
   map_of act_id_motor_group_index_map b = Some i \<Longrightarrow> a = b"
  by (auto simp: act_id_motor_group_index_map_def split: if_splits)

lemma known_lookup:
  "known_act_id a \<longleftrightarrow> map_of act_id_motor_group_index_map a \<noteq> None"
  by (simp add: known_act_id_def map_of_eq_None_iff)

subsection \<open>The setters and the two actuation loops\<close>

lemma str_setPosition_simps [simp]:
  "drv_motors (str_setPosition i v w) = drv_motors w"
  "length (str_motors (str_setPosition i v w)) = length (str_motors w)"
  "calls (str_setPosition i v w) = calls w @ [SetPosition (StrMotor i) v]"
  by (simp_all add: str_setPosition_def)

lemma str_setPosition_nth:
  "str_motors (str_setPosition i v w) ! j =
     (if j = i \<and> i < length (str_motors w) then (str_motors w ! i)\<lparr>position := v\<rparr>
      else str_motors w ! j)"
  by (cases "i < length (str_motors w)") (simp_all add: str_setPosition_def nth_list_update list_update_beyond)

lemma drv_set_simps [simp]:
  "str_motors (drv_setPosition i v w) = str_motors w"
  "str_motors (drv_setVelocity i v w) = str_motors w"
  "length (drv_motors (drv_setPosition i v w)) = length (drv_motors w)"
  "length (drv_motors (drv_setVelocity i v w)) = length (drv_motors w)"
  by (simp_all add: drv_setPosition_def drv_setVelocity_def)

lemma drv_set_nth:
  "drv_motors (drv_setVelocity i v (drv_setPosition i p w)) ! j =
     (if j = i \<and> i < length (drv_motors w) then (drv_motors w ! i)\<lparr>position := p, velocity := v\<rparr>
      else drv_motors w ! j)"
  by (cases "i < length (drv_motors w)")
     (simp_all add: drv_setPosition_def drv_setVelocity_def nth_list_update list_update_beyond)

lemma actuate_pos_drv [simp]: "drv_motors (snd (actuate_pos pos w)) = drv_motors w"
  by (induction pos w rule: actuate_pos.induct) (simp_all split: option.splits)

lemma actuate_pos_length [simp]:
  "length (str_motors (snd (actuate_pos pos w))) = length (str_motors w)"
  by (induction pos w rule: actuate_pos.induct) (simp_all split: option.splits)

lemma actuate_speed_str [simp]: "str_motors (snd (actuate_speed spd w)) = str_motors w"
  by (induction spd w rule: actuate_speed.induct) (simp_all split: option.splits)

lemma actuate_speed_length [simp]:
  "length (drv_motors (snd (actuate_speed spd w))) = length (drv_motors w)"
  by (induction spd w rule: actuate_speed.induct) (simp_all split: option.splits)

lemma actuate_pos_ok:
  "6 \<le> length (str_motors w) \<Longrightarrow>
   \<forall>k\<in>set (map fst pos). take 3 k = ''Str'' \<longrightarrow> known_act_id k \<Longrightarrow>
   fst (actuate_pos pos w) = None"
proof (induction pos w rule: actuate_pos.induct)
  case (1 w)
  then show ?case by simp
next
  case (2 act_id position_rad rest w)
  show ?case
  proof (cases "take 3 act_id = ''Str''")
    case False
    with 2 show ?thesis by simp
  next
    case True
    with "2.prems" obtain i where i: "map_of act_id_motor_group_index_map act_id = Some i"
      by (auto simp: known_lookup)
    with True have "i < 6" by (rule str_index_bound)
    with "2.prems" have lt: "i < length (str_motors w)" by simp
    with 2 True i show ?thesis by simp
  qed
qed

lemma actuate_speed_ok:
  "6 \<le> length (drv_motors w) \<Longrightarrow>
   \<forall>k\<in>set (map fst spd). take 3 k = ''Drv'' \<longrightarrow> known_act_id k \<Longrightarrow>
   fst (actuate_speed spd w) = None"
proof (induction spd w rule: actuate_speed.induct)
  case (1 w)
  then show ?case by simp
next
  case (2 act_id speed_rads rest w)
  show ?case
  proof (cases "take 3 act_id = ''Drv''")
    case False
    with 2 show ?thesis by simp
  next
    case True
    with "2.prems" obtain i where i: "map_of act_id_motor_group_index_map act_id = Some i"
      by (auto simp: known_lookup)
    with True have "i < 6" by (rule drv_index_bound)
    with "2.prems" have lt: "i < length (drv_motors w)" by simp
    with 2 True i show ?thesis by simp
  qed
qed

lemma actuate_pos_other:
  "\<forall>k\<in>set (map fst pos). take 3 k = ''Str'' \<longrightarrow>
       map_of act_id_motor_group_index_map k \<noteq> Some i \<Longrightarrow>
   str_motors (snd (actuate_pos pos w)) ! i = str_motors w ! i"
proof (induction pos w rule: actuate_pos.induct)
  case (1 w)
  then show ?case by simp
next
  case (2 act_id position_rad rest w)
  then show ?case
    by (auto simp: str_setPosition_nth split: option.splits)
qed

lemma actuate_speed_other:
  "\<forall>k\<in>set (map fst spd). take 3 k = ''Drv'' \<longrightarrow>
       map_of act_id_motor_group_index_map k \<noteq> Some i \<Longrightarrow>
   drv_motors (snd (actuate_speed spd w)) ! i = drv_motors w ! i"
proof (induction spd w rule: actuate_speed.induct)
  case (1 w)
  then show ?case by simp
next
  case (2 act_id speed_rads rest w)
  then show ?case
    by (auto simp: drv_set_nth split: option.splits)
qed

lemma actuate_pos_set:
  "distinct (map fst pos) \<Longrightarrow> (k, v) \<in> set pos \<Longrightarrow> take 3 k = ''Str'' \<Longrightarrow>
   map_of act_id_motor_group_index_map k = Some i \<Longrightarrow> fst (actuate_pos pos w) = None \<Longrightarrow>
   position (str_motors (snd (actuate_pos pos w)) ! i) = v"
proof (induction pos w rule: actuate_pos.induct)
  case (1 w)
  then show ?case by simp
next
  case (2 act_id position_rad rest w)
  show ?case
  proof (cases "(k, v) = (act_id, position_rad)")
    case True
    then have kv: "act_id = k" "position_rad = v" by simp_all
    from "2.prems" kv have lt: "i < length (str_motors w)"
      by (simp split: if_splits)
    have "\<forall>k'\<in>set (map fst rest). take 3 k' = ''Str'' \<longrightarrow>
            map_of act_id_motor_group_index_map k' \<noteq> Some i"
    proof (intro ballI impI notI)
      fix k' assume k': "k' \<in> set (map fst rest)" "take 3 k' = ''Str''"
        "map_of act_id_motor_group_index_map k' = Some i"
      from str_index_inj [OF k'(2) "2.prems"(3) k'(3) "2.prems"(4)] have "k' = k" .
      with k'(1) "2.prems"(1) kv show False by simp
    qed
    from actuate_pos_other [OF this]
    have "str_motors (snd (actuate_pos rest (str_setPosition i v w))) ! i =
          str_motors (str_setPosition i v w) ! i" .
    with "2.prems" kv lt show ?thesis by (simp add: str_setPosition_nth)
  next
    case False
    with "2.prems" have mem: "(k, v) \<in> set rest" by auto
    show ?thesis
    proof (cases "take 3 act_id = ''Str''")
      case ns: False
      with 2 mem show ?thesis by simp
    next
      case s: True
      from "2.prems" s obtain j where
        j: "map_of act_id_motor_group_index_map act_id = Some j" "j < length (str_motors w)"
        by (auto split: option.splits if_splits)
      with 2 mem s show ?thesis by simp
    qed
  qed
qed

lemma actuate_speed_set:
  "distinct (map fst spd) \<Longrightarrow> (k, v) \<in> set spd \<Longrightarrow> take 3 k = ''Drv'' \<Longrightarrow>
   map_of act_id_motor_group_index_map k = Some i \<Longrightarrow> fst (actuate_speed spd w) = None \<Longrightarrow>
   position (drv_motors (snd (actuate_speed spd w)) ! i) = PFloat PosInf \<and>
   velocity (drv_motors (snd (actuate_speed spd w)) ! i) = v"
proof (induction spd w rule: actuate_speed.induct)
  case (1 w)
  then show ?case by simp
next
  case (2 act_id speed_rads rest w)
  show ?case
  proof (cases "(k, v) = (act_id, speed_rads)")
    case True
    then have kv: "act_id = k" "speed_rads = v" by simp_all
    from "2.prems" kv have lt: "i < length (drv_motors w)"
      by (simp split: if_splits)
    let ?w1 = "drv_setVelocity i v (drv_setPosition i (PFloat PosInf) w)"
    have "\<forall>k'\<in>set (map fst rest). take 3 k' = ''Drv'' \<longrightarrow>
            map_of act_id_motor_group_index_map k' \<noteq> Some i"
    proof (intro ballI impI notI)
      fix k' assume k': "k' \<in> set (map fst rest)" "take 3 k' = ''Drv''"
        "map_of act_id_motor_group_index_map k' = Some i"
      from drv_index_inj [OF k'(2) "2.prems"(3) k'(3) "2.prems"(4)] have "k' = k" .
      with k'(1) "2.prems"(1) kv show False by simp
    qed
    from actuate_speed_other [OF this]
    have "drv_motors (snd (actuate_speed rest ?w1)) ! i = drv_motors ?w1 ! i" .
    with "2.prems" kv lt show ?thesis by (simp add: drv_set_nth)
  next
    case False
    with "2.prems" have mem: "(k, v) \<in> set rest" by auto
    show ?thesis
    proof (cases "take 3 act_id = ''Drv''")
      case ns: False
      with 2 mem show ?thesis by simp
    next
      case s: True
      from "2.prems" s obtain j where
        j: "map_of act_id_motor_group_index_map act_id = Some j" "j < length (drv_motors w)"
        by (auto split: option.splits if_splits)
      with 2 mem s show ?thesis by simp
    qed
  qed
qed

lemma actuate_pos_filter:
  "actuate_pos (filter (\<lambda>kv. take 3 (fst kv) = ''Str'') pos) w = actuate_pos pos w"
  by (induction pos w rule: actuate_pos.induct) (simp_all split: option.splits)

lemma actuate_speed_filter:
  "actuate_speed (filter (\<lambda>kv. take 3 (fst kv) = ''Drv'') spd) w = actuate_speed spd w"
  by (induction spd w rule: actuate_speed.induct) (simp_all split: option.splits)

subsection \<open>Order of the calls\<close>

lemma actuate_pos_calls:
  "\<exists>acts. calls (snd (actuate_pos pos w)) = calls w @ acts \<and> list_all is_motor_call acts"
proof (induction pos arbitrary: w)
  case Nil
  then show ?case by simp
next
  case (Cons p pos)
  obtain k v where p: "p = (k, v)" by (cases p)
  show ?case
  proof (cases "take 3 k = ''Str''")
    case False
    with p Cons.IH [of w] show ?thesis by simp
  next
    case True
    show ?thesis
    proof (cases "map_of act_id_motor_group_index_map k")
      case None
      with p True show ?thesis by simp
    next
      case (Some i)
      show ?thesis
      proof (cases "i < length (str_motors w)")
        case False
        with p True Some show ?thesis by simp
      next
        case lt: True
        from Cons.IH [of "str_setPosition i v w"] obtain acts where
          "calls (snd (actuate_pos pos (str_setPosition i v w))) =
             calls (str_setPosition i v w) @ acts" "list_all is_motor_call acts"
          by blast
        then have "calls (snd (actuate_pos (p # pos) w)) =
            calls w @ (SetPosition (StrMotor i) v # acts) \<and>
            list_all is_motor_call (SetPosition (StrMotor i) v # acts)"
          using p True Some lt by (simp add: str_setPosition_def)
        then show ?thesis by blast
      qed
    qed
  qed
qed

lemma actuate_speed_calls:
  "\<exists>acts. calls (snd (actuate_speed spd w)) = calls w @ acts \<and> list_all is_motor_call acts"
proof (induction spd arbitrary: w)
  case Nil
  then show ?case by simp
next
  case (Cons p spd)
  obtain k v where p: "p = (k, v)" by (cases p)
  show ?case
  proof (cases "take 3 k = ''Drv''")
    case False
    with p Cons.IH [of w] show ?thesis by simp
  next
    case True
    show ?thesis
    proof (cases "map_of act_id_motor_group_index_map k")
      case None
      with p True show ?thesis by simp
    next
      case (Some i)
      show ?thesis
      proof (cases "i < length (drv_motors w)")
        case False
        with p True Some show ?thesis by simp
      next
        case lt: True
        let ?w1 = "drv_setVelocity i v (drv_setPosition i (PFloat PosInf) w)"
        from Cons.IH [of ?w1] obtain acts where
          "calls (snd (actuate_speed spd ?w1)) = calls ?w1 @ acts" "list_all is_motor_call acts"
          by blast
        then have "calls (snd (actuate_speed (p # spd) w)) =
            calls w @ (SetPosition (DrvMotor i) (PFloat PosInf) # SetVelocity (DrvMotor i) v # acts) \<and>
            list_all is_motor_call
              (SetPosition (DrvMotor i) (PFloat PosInf) # SetVelocity (DrvMotor i) v # acts)"
          using p True Some lt by (simp add: drv_setVelocity_def drv_setPosition_def)
        then show ?thesis by blast
      qed
    qed
  qed
qed

lemma actuate_mech_dems_calls:
  "\<exists>acts. calls (snd (actuate_mech_dems dems w)) = calls w @ acts \<and> list_all is_motor_call acts"
proof -
  have triv: "\<exists>acts. calls w = calls w @ acts \<and> list_all is_motor_call acts" by simp
  show ?thesis
  proof (cases "subscript dems ''pos_rad''")
    case (Inl e)
    then show ?thesis using triv by (simp add: actuate_mech_dems_def)
  next
    case p: (Inr p)
    show ?thesis
    proof (cases "items p")
      case (Inl e)
      then show ?thesis using triv p by (simp add: actuate_mech_dems_def)
    next
      case pos: (Inr pos)
      obtain e1 w1 where r1: "actuate_pos pos w = (e1, w1)" by (cases "actuate_pos pos w")
      from actuate_pos_calls [of pos w] r1 obtain a1 where
        a1: "calls w1 = calls w @ a1" "list_all is_motor_call a1" by auto
      then have one: "\<exists>acts. calls w1 = calls w @ acts \<and> list_all is_motor_call acts" by blast
      show ?thesis
      proof (cases e1)
        case (Some e)
        then show ?thesis using one p pos r1 by (simp add: actuate_mech_dems_def)
      next
        case None
        show ?thesis
        proof (cases "subscript dems ''speed_rads''")
          case (Inl e)
          then show ?thesis using one p pos r1 None by (simp add: actuate_mech_dems_def)
        next
          case s: (Inr s)
          show ?thesis
          proof (cases "items s")
            case (Inl e)
            then show ?thesis using one p pos r1 None s by (simp add: actuate_mech_dems_def)
          next
            case spd: (Inr spd)
            from actuate_speed_calls [of spd w1] obtain a2 where
              "calls (snd (actuate_speed spd w1)) = calls w1 @ a2" "list_all is_motor_call a2"
              by blast
            then have "calls (snd (actuate_speed spd w1)) = calls w @ (a1 @ a2) \<and>
                       list_all is_motor_call (a1 @ a2)"
              using a1 by simp
            then have "\<exists>acts. calls (snd (actuate_speed spd w1)) = calls w @ acts \<and>
                       list_all is_motor_call acts" by blast
            then show ?thesis using p pos r1 None s spd by (simp add: actuate_mech_dems_def)
          qed
        qed
      qed
    qed
  qed
qed


subsection \<open>The whole of \<open>actuate_mech_dems\<close>\<close>

lemma actuate_mech_dems_present:
  "subscript dems ''pos_rad'' = Inr (PDict pos) \<Longrightarrow>
   subscript dems ''speed_rads'' = Inr (PDict spd) \<Longrightarrow>
   fst (actuate_pos pos w) = None \<Longrightarrow>
   actuate_mech_dems dems w = actuate_speed spd (snd (actuate_pos pos w))"
  by (cases "actuate_pos pos w") (simp add: actuate_mech_dems_def)

lemma filter_class_known:
  "\<forall>k\<in>set (map fst xs). \<not> known_act_id k \<longrightarrow> take 3 k \<noteq> cls \<Longrightarrow>
   filter (\<lambda>kv. take 3 (fst kv) = cls) (filter (\<lambda>kv. known_act_id (fst kv)) xs) =
   filter (\<lambda>kv. take 3 (fst kv) = cls) xs"
  by (induction xs) auto

lemma actuate_mech_dems_both:
  "subscript dems ''pos_rad'' = Inr (PDict pos) \<Longrightarrow>
   subscript dems ''speed_rads'' = Inr (PDict spd) \<Longrightarrow>
   actuate_mech_dems dems w =
     (case actuate_pos pos w of
        (Some e, w1) \<Rightarrow> (Some e, w1)
      | (None, w1) \<Rightarrow> actuate_speed spd w1)"
  by (simp add: actuate_mech_dems_def split: prod.splits option.splits)

lemma filter_class_keep:
  "filter (\<lambda>kv. take 3 (fst kv) = cls)
     (filter (\<lambda>kv. known_act_id (fst kv) \<or> take 3 (fst kv) = cls) xs) =
   filter (\<lambda>kv. take 3 (fst kv) = cls) xs"
  by (induction xs) auto

section \<open>Auxiliary facts: the camera side\<close>

subsection \<open>The relay loop\<close>

lemma fst_emit [simp]: "fst (emit evs r) = evs @ fst r"
  by (simp add: emit_def)

lemma relay_ok_loop:
  "relay_ok handling_req (fst (cam_process_loop image_save b64encode handling_req inputs))"
proof (induction inputs arbitrary: handling_req)
  case Nil
  then show ?case by simp
next
  case (Cons inp inputs)
  obtain msg client where inp: "inp = (msg, client)" by (cases inp)
  note IH = Cons.IH [of False] Cons.IH [of True]
  show ?case
  proof (cases msg)
    case None
    with inp IH show ?thesis
      by (cases handling_req; cases client) (simp_all add: Let_def)
  next
    case (Some m)
    show ?thesis
    proof (cases m)
      case (MsgStr s)
      with inp Some IH show ?thesis
        by (cases handling_req; cases client) (simp_all add: Let_def)
    next
      case (MsgDict cam_data)
      show ?thesis
      proof (cases "handle_cam_send image_save b64encode cam_data")
        case (Inl e)
        with inp Some MsgDict show ?thesis by simp
      next
        case (Inr reply)
        with inp Some MsgDict IH show ?thesis
          by (cases client) (simp_all add: Let_def)
      qed
    qed
  qed
qed

subsection \<open>The bundle built by \<open>handle_cam_req\<close>\<close>

lemma update_head_key:
  "cd \<noteq> [] \<Longrightarrow> AList.update k v cd \<noteq> [] \<and> fst (hd (AList.update k v cd)) = fst (hd cd)"
  by (cases cd) auto

lemma acquire_bundle:
  "acquire cameras clock n ids cd = Inr cd' \<Longrightarrow> distinct (map fst cd) \<Longrightarrow> cd \<noteq> [] \<Longrightarrow>
   distinct (map fst cd') \<and> cd' \<noteq> [] \<and> fst (hd cd') = fst (hd cd)"
proof (induction cameras clock n ids cd rule: acquire.induct)
  case (1 cameras clock n cam_data)
  then show ?case by simp
next
  case (2 cameras clock n cam_id rest cam_data)
  from "2.prems"(1) obtain cam where cam: "map_of cameras cam_id = Some cam"
    by (auto split: option.splits)
  let ?cd = "AList.update cam_id
               (Frame \<lparr>raw = getImage cam, timestamp = clock n,
                       height = getHeight cam, width = getWidth cam\<rparr>) cam_data"
  from "2.prems" cam have r: "acquire cameras clock (Suc n) rest ?cd = Inr cd'" by simp
  have d: "distinct (map fst ?cd)" using "2.prems"(2) by (rule distinct_update)
  from update_head_key [OF "2.prems"(3)] have h: "?cd \<noteq> []" "fst (hd ?cd) = fst (hd cam_data)"
    by simp_all
  from "2.IH" [OF cam r d h(1)] h(2) show ?case by simp
qed simp_all

lemma handle_cam_req_bundle:
  assumes "handle_cam_req cameras clock (Some cam_req) = Inr (Some cam_data)"
  shows "distinct (map fst cam_data) \<and> (\<exists>fmt frames. cam_data = (''format'', fmt) # frames)"
proof -
  from assms obtain fmt ids where
    a: "acquire cameras clock 0 ids [(''format'', FormatSpec fmt)] = Inr cam_data"
    by (auto simp: handle_cam_req_def split: sum.splits)
  from acquire_bundle [OF a] have "distinct (map fst cam_data)" "cam_data \<noteq> []"
    "fst (hd cam_data) = ''format''" by simp_all
  then show ?thesis by (cases cam_data) auto
qed

subsection \<open>The loop of \<open>handle_cam_send\<close>\<close>

lemma update_map_entries:
  "AList.update k (g e) (map (\<lambda>kv. (fst kv, g (snd kv))) res) =
   map (\<lambda>kv. (fst kv, g (snd kv))) (AList.update k e res)"
  by (induction res) auto

lemma cam_send_loop_keys:
  "cam_send_loop sv b cd its res = Inr res' \<Longrightarrow> distinct (map fst its) \<Longrightarrow>
   set (map fst its) \<inter> set (map fst res) = {} \<Longrightarrow>
   map fst res' = map fst res @ filter (\<lambda>k. k \<noteq> ''format'') (map fst its)"
proof (induction its arbitrary: res)
  case Nil
  then show ?case by simp
next
  case (Cons kv its)
  obtain k v where kv: "kv = (k, v)" by (cases kv)
  show ?case
  proof (cases "k = ''format''")
    case True
    with Cons kv show ?thesis by simp
  next
    case False
    with Cons.prems kv obtain e where
      e: "encode_camera sv b cd v = Inr e"
         "cam_send_loop sv b cd its (AList.update k e res) = Inr res'"
      by (auto split: sum.splits)
    have keys: "map fst (AList.update k e res) = map fst res @ [k]"
      using Cons.prems kv by (simp add: update_keys)
    have "map fst res' = map fst (AList.update k e res) @ filter (\<lambda>k. k \<noteq> ''format'') (map fst its)"
      using Cons.prems kv keys by (intro Cons.IH [OF e(2)]) auto
    with keys kv False show ?thesis by simp
  qed
qed

lemma cam_send_loop_other:
  "cam_send_loop sv b cd its res = Inr res' \<Longrightarrow> k \<notin> set (map fst its) \<Longrightarrow>
   map_of res' k = map_of res k"
proof (induction its arbitrary: res)
  case Nil
  then show ?case by simp
next
  case (Cons kv its)
  obtain k' v where kv: "kv = (k', v)" by (cases kv)
  show ?case
  proof (cases "k' = ''format''")
    case True
    with Cons kv show ?thesis by simp
  next
    case False
    with Cons.prems kv obtain e where
      e: "cam_send_loop sv b cd its (AList.update k' e res) = Inr res'"
      by (auto split: sum.splits)
    from Cons.IH [OF e] Cons.prems kv show ?thesis
      by (simp add: update_conv')
  qed
qed

lemma cam_send_loop_entry:
  "cam_send_loop sv b cd its res = Inr res' \<Longrightarrow> distinct (map fst its) \<Longrightarrow>
   (k, v) \<in> set its \<Longrightarrow> k \<noteq> ''format'' \<Longrightarrow>
   \<exists>e. encode_camera sv b cd v = Inr e \<and> map_of res' k = Some e"
proof (induction its arbitrary: res)
  case Nil
  then show ?case by simp
next
  case (Cons kv its)
  obtain k' v' where kv: "kv = (k', v')" by (cases kv)
  show ?case
  proof (cases "(k, v) = (k', v')")
    case True
    with Cons.prems kv obtain e where
      e: "encode_camera sv b cd v = Inr e"
         "cam_send_loop sv b cd its (AList.update k e res) = Inr res'"
      by (auto split: sum.splits)
    from Cons.prems kv True have "k \<notin> set (map fst its)" by simp
    from cam_send_loop_other [OF e(2) this] e(1) show ?thesis
      by (simp add: update_conv')
  next
    case False
    with Cons.prems kv have mem: "(k, v) \<in> set its" by auto
    show ?thesis
    proof (cases "k' = ''format''")
      case True
      with Cons kv mem show ?thesis by simp
    next
      case nf: False
      with Cons.prems kv obtain e where
        e: "cam_send_loop sv b cd its (AList.update k' e res) = Inr res'"
        by (auto split: sum.splits)
      from Cons.IH [OF e _ mem] Cons.prems show ?thesis by simp
    qed
  qed
qed

lemma encode_camera_format:
  "encode_camera sv b cd v = Inr e \<Longrightarrow> map_of cd ''format'' = Some (r_format e)"
  by (auto simp: encode_camera_def split: cam_val.splits sum.splits option.splits)

lemma cam_send_loop_echo:
  "cam_send_loop sv b cd its res = Inr res' \<Longrightarrow> map_of cd ''format'' = Some fmt \<Longrightarrow>
   list_all (\<lambda>kv. r_format (snd kv) = fmt) res \<Longrightarrow>
   list_all (\<lambda>kv. r_format (snd kv) = fmt) res'"
proof (induction its arbitrary: res)
  case Nil
  then show ?case by simp
next
  case (Cons kv its)
  obtain k v where kv: "kv = (k, v)" by (cases kv)
  show ?case
  proof (cases "k = ''format''")
    case True
    with Cons kv show ?thesis by simp
  next
    case False
    with Cons.prems kv obtain e where
      e: "encode_camera sv b cd v = Inr e"
         "cam_send_loop sv b cd its (AList.update k e res) = Inr res'"
      by (auto split: sum.splits)
    from encode_camera_format [OF e(1)] Cons.prems have f: "r_format e = fmt" by simp
    have "list_all (\<lambda>kv. r_format (snd kv) = fmt) (AList.update k e res)"
      using Cons.prems(3) f by (induction res) auto
    from Cons.IH [OF e(2) Cons.prems(2) this] show ?thesis .
  qed
qed

lemma handle_cam_send_Inr:
  "handle_cam_send sv b cd = Inr reply \<Longrightarrow> cam_send_loop sv b cd cd [] = Inr reply"
  by (auto simp: handle_cam_send_def split: sum.splits if_splits)

lemma handle_cam_send_echo:
  "handle_cam_send sv b cd = Inr reply \<Longrightarrow> map_of cd ''format'' = Some fmt \<Longrightarrow>
   list_all (\<lambda>kv. r_format (snd kv) = fmt) reply"
  by (rule cam_send_loop_echo [OF handle_cam_send_Inr]) simp_all

lemma frame_encodable_encode:
  assumes fmt: "map_of cd ''format'' = Some (FormatSpec spec)"
      and name: "format_name (FormatSpec spec) = Inr name"
      and ok: "frame_encodable sv name (k, v)" and nf: "k \<noteq> ''format''"
  shows "\<exists>e. encode_camera sv b cd v = Inr e"
proof -
  from ok nf obtain d a bs where
    "v = Frame d" "reshape (raw d) (height d) (width d) = Inr a"
    "sv name \<lparr>img_height = height d, img_width = width d, img_pixels = reorder a\<rparr> = Inr bs"
    by (auto simp: frame_encodable_def split: cam_val.splits sum.splits)
  then show ?thesis using fmt name by (simp add: encode_camera_def)
qed

lemma cam_send_loop_total:
  assumes fmt: "map_of cd ''format'' = Some (FormatSpec spec)"
      and name: "format_name (FormatSpec spec) = Inr name"
  shows "list_all (frame_encodable sv name) its \<Longrightarrow>
         \<exists>res'. cam_send_loop sv b cd its res = Inr res'"
proof (induction its arbitrary: res)
  case Nil
  then show ?case by simp
next
  case (Cons kv its)
  obtain k v where kv: "kv = (k, v)" by (cases kv)
  show ?case
  proof (cases "k = ''format''")
    case True
    with Cons kv show ?thesis by simp
  next
    case False
    from Cons.prems kv have "frame_encodable sv name (k, v)" by simp
    from frame_encodable_encode [OF fmt name this False, of b]
    obtain e where e: "encode_camera sv b cd v = Inr e" by blast
    from Cons.prems have "list_all (frame_encodable sv name) its" by simp
    from Cons.IH [OF this, of "AList.update k e res"] e kv False show ?thesis by simp
  qed
qed

lemma handle_cam_send_total:
  assumes "frames_encodable sv cd"
  shows "\<exists>reply. handle_cam_send sv b cd = Inr reply"
proof -
  from assms obtain spec name where
    fmt: "map_of cd ''format'' = Some (FormatSpec spec)"
    and name: "format_name (FormatSpec spec) = Inr name"
    and all: "list_all (frame_encodable sv name) cd"
    by (auto simp: frames_encodable_def split: option.splits cam_val.splits sum.splits)
  from cam_send_loop_total [OF fmt name all, of b "[]"] obtain res where
    res: "cam_send_loop sv b cd cd [] = Inr res" by blast
  from cam_send_loop_echo [OF res fmt]
  have "list_all (\<lambda>kv. r_format (snd kv) = FormatSpec spec) res" by simp
  then have "list_all (\<lambda>kv. json_serialisable (r_format (snd kv))) res"
    by (induction res) auto
  with res show ?thesis by (simp add: handle_cam_send_def)
qed

lemma encode_camera_two_formats:
  assumes "map_of cdA ''format'' = Some fa" "map_of cdB ''format'' = Some fb"
      and "format_name fa = format_name fb"
  shows "encode_camera sv b cdB v = map_sum id (r_format_update (\<lambda>_. fb)) (encode_camera sv b cdA v)"
  using assms by (simp add: encode_camera_def split: cam_val.splits sum.splits)

lemma cam_send_loop_two_formats:
  assumes "map_of cdA ''format'' = Some fa" "map_of cdB ''format'' = Some fb"
      and "format_name fa = format_name fb"
  shows "cam_send_loop sv b cdB its (map (\<lambda>kv. (fst kv, r_format_update (\<lambda>_. fb) (snd kv))) res) =
         map_sum id (map (\<lambda>kv. (fst kv, r_format_update (\<lambda>_. fb) (snd kv))))
           (cam_send_loop sv b cdA its res)"
proof (induction its arbitrary: res)
  case Nil
  then show ?case by simp
next
  case (Cons kv its)
  obtain k v where kv: "kv = (k, v)" by (cases kv)
  show ?case
  proof (cases "k = ''format''")
    case True
    with Cons kv show ?thesis by simp
  next
    case False
    show ?thesis
    proof (cases "encode_camera sv b cdA v")
      case (Inl e)
      with kv False encode_camera_two_formats [OF assms, of sv b v] show ?thesis by simp
    next
      case (Inr e)
      with kv False encode_camera_two_formats [OF assms, of sv b v]
           Cons.IH [of "AList.update k e res"]
      show ?thesis by (simp add: update_map_entries)
    qed
  qed
qed

subsection \<open>Reshaping and reordering\<close>

lemma reshape_reorder_pixel:
  assumes "reshape buf h w = Inr a" "y < h" "x < w"
  shows "reorder a ! y ! x =
           [buf ! ((y * w + x) * 4 + 2), buf ! ((y * w + x) * 4 + 1),
            buf ! ((y * w + x) * 4), buf ! ((y * w + x) * 4 + 3)]"
proof -
  from assms(1) have a: "a = map (\<lambda>y. map (\<lambda>x. map (\<lambda>c. buf ! ((y * w + x) * 4 + c)) [0..<4]) [0..<w]) [0..<h]"
    by (simp add: reshape_def split: if_splits)
  have four: "[0..<4] = [0, 1, 2, 3::nat]"
    by (simp add: upt_rec)
  show ?thesis using assms(2,3) unfolding a reorder_def four by simp
qed

lemma reshape_reorder_shape:
  assumes "reshape buf h w = Inr a"
  shows "length (reorder a) = h" and "y < h \<Longrightarrow> length (reorder a ! y) = w"
proof -
  from assms have a: "a = map (\<lambda>y. map (\<lambda>x. map (\<lambda>c. buf ! ((y * w + x) * 4 + c)) [0..<4]) [0..<w]) [0..<h]"
    by (simp add: reshape_def split: if_splits)
  show "length (reorder a) = h" unfolding a reorder_def by simp
  show "y < h \<Longrightarrow> length (reorder a ! y) = w" unfolding a reorder_def by simp
qed

lemma encode_camera_png:
  assumes enc: "encode_camera sv b cd (Frame d) = Inr e"
      and fmt: "map_of cd ''format'' = Some (FormatSpec (PStr ''png''))"
  shows "\<exists>a bs. reshape (raw d) (height d) (width d) = Inr a \<and>
           sv ''png'' \<lparr>img_height = height d, img_width = width d, img_pixels = reorder a\<rparr> = Inr bs \<and>
           r_b64_data e = b bs"
  using assms by (auto simp: encode_camera_def split: sum.splits)

subsection \<open>The concrete run\<close>

lemma send_png: "handle_cam_send plain_save plain_b64 bundle_png = Inr reply_png"
  by (simp add: handle_cam_send_def bundle_png_def reply_png_def encode_camera_def
      frame_1x2_def reshape_def reorder_def plain_save_def plain_b64_def upt_rec)

lemma req_png: "handle_cam_req cameras0 (\<lambda>n. 1000) (Some request_png) = Inr (Some bundle_png)"
  by (simp add: handle_cam_req_def request_png_def cameras0_def bundle_png_def frame_1x2_def)

lemma relay_run:
  "cam_process plain_save plain_b64 relay_inputs =
     ([ClientRecv (Loaded request_png), Forward request_png, Reply reply_png,
       ClientRecv RaisedAgain, ClientRecv (Loaded request_png), Forward request_png,
       ClosePipe], Stopped)"
  by (simp add: cam_process_def relay_inputs_def send_png emit_def request_png_def Let_def)

lemma send_png_strict: "handle_cam_send strict_save plain_b64 bundle_png = Inr reply_png"
  by (simp add: handle_cam_send_def bundle_png_def reply_png_def encode_camera_def
      frame_1x2_def reshape_def reorder_def strict_save_def plain_b64_def upt_rec)

section \<open>Properties of the command channel\<close>

text \<open>
  C1, as the code has it. When the receive on the command channel ends in a transport
  error or in any other exception (such as a payload that does not decode), no reply is
  sent and the velocity setpoint of every drive motor becomes \<open>0.0\<close>: the only calls made
  are the \<open>setVelocity(0.0)\<close> of \<open>stop\<close>. The handler then returns \<open>True\<close>, as it does on
  every path; it does not return a stop indication.
\<close>

theorem recv_error_stops_without_reply:
  "r = RaisedZMQError \<or> r = RaisedException \<Longrightarrow>
   fst (handle_mech r w) = Inr True \<and>
   map velocity (drv_motors (snd (handle_mech r w))) =
     replicate (length (drv_motors w)) (PFloat (Finite 0)) \<and>
   calls (snd (handle_mech r w)) =
     calls w @ map (\<lambda>i. SetVelocity (DrvMotor i) (PFloat (Finite 0))) [0..<length (drv_motors w)]"
  by (auto simp: handle_mech_def stop_eq map_replicate_const comp_def)

theorem recv_error_stops_without_reply_witness:
  "(RaisedException = RaisedZMQError \<or> RaisedException = RaisedException) \<and>
   fst (handle_mech RaisedException world0) = Inr True \<and>
   map velocity (drv_motors (snd (handle_mech RaisedException world0))) =
     replicate 6 (PFloat (Finite 0)) \<and>
   calls (snd (handle_mech RaisedException world0)) =
     map (\<lambda>i. SetVelocity (DrvMotor i) (PFloat (Finite 0))) [0..<6]"
proof -
  have h: "RaisedException = RaisedZMQError \<or> RaisedException = RaisedException" by simp
  show ?thesis
    using recv_error_stops_without_reply [OF h, of world0]
    by (simp add: world0_def eval_nat_numeral)
qed

text \<open>
  C1 as stated asks for a stop indication that ends the main loop. On the rover
  \<open>world0\<close> the handler returns \<open>True\<close> after either kind of failure, and the turn of the
  main loop that holds the failure leaves \<open>run_controller\<close> true when \<open>step\<close> does.
\<close>

theorem recv_error_keeps_running:
  "fst (handle_mech RaisedException world0) = Inr True \<and>
   fst (handle_mech RaisedZMQError world0) = Inr True \<and>
   fst (handle_mech RaisedException world0) \<noteq> Inr False \<and>
   fst (run_turn [] (\<lambda>n. 0) RaisedException None 0 world0) = Inr True"
  by (simp add: handle_mech_def run_turn_def handle_cam_req_def)

text \<open>
  C2, as the code has it. For every command message that decodes to a value other than
  \<open>None\<close>, the calls the handler makes start with the send of the literal \<open>"DemsOk"\<close>
  on the reply socket, and everything after it is a call on a motor: the
  acknowledgement precedes every actuation of the same message.
\<close>

theorem ack_before_actuation:
  "mech_dems \<noteq> PNone \<Longrightarrow>
   \<exists>acts. calls (snd (handle_mech (Loaded mech_dems) w)) =
             calls w @ SendString ''\"DemsOk\"'' # acts \<and> list_all is_motor_call acts"
proof -
  assume ne: "mech_dems \<noteq> PNone"
  let ?w1 = "send_string ''\"DemsOk\"'' w"
  from actuate_mech_dems_calls [of mech_dems ?w1] obtain acts where
    a: "calls (snd (actuate_mech_dems mech_dems ?w1)) = calls ?w1 @ acts"
       "list_all is_motor_call acts" by blast
  have "snd (handle_mech (Loaded mech_dems) w) = snd (actuate_mech_dems mech_dems ?w1)"
    using ne by (simp add: handle_mech_def split: prod.splits option.splits)
  with a show ?thesis by (simp add: send_string_def)
qed

theorem ack_before_actuation_witness:
  "dems_known \<noteq> PNone \<and>
   calls (snd (handle_mech (Loaded dems_known) world0)) =
     [SendString ''\"DemsOk\"'',
      SetPosition (StrMotor 0) (PFloat (Finite (1 / 2))),
      SetPosition (DrvMotor 0) (PFloat PosInf),
      SetVelocity (DrvMotor 0) (PFloat (Finite 2))]"
proof -
  have h: "dems_known \<noteq> PNone" by (simp add: dems_known_def)
  show ?thesis
    using h ack_before_actuation [OF h, of world0]
    by (simp add: dems_known_def pos_known_def spd_known_def world0_def handle_mech_def
      actuate_mech_dems_def send_string_def act_id_motor_group_index_map_def
      str_setPosition_def drv_setPosition_def drv_setVelocity_def)
qed

text \<open>
  C2 as stated covers every message that is received and decoded. The payload \<open>null\<close>
  is one: \<open>json.loads\<close> returns \<open>None\<close> for it, which the handler tests for with
  \<open>mech_dems is None\<close> and takes for "no message", so nothing is sent and nothing is
  applied.
\<close>

theorem null_payload_not_acknowledged:
  "handle_mech (Loaded PNone) world0 = (Inr True, world0) \<and>
   calls (snd (handle_mech (Loaded PNone) world0)) = []"
  by (simp add: handle_mech_def world0_def)

text \<open>
  C3, as the code has it. Take a demand whose \<open>pos_rad\<close> and \<open>speed_rads\<close> are both
  present, as dictionaries, and name only ids of the table, on a rover with its six
  steering and six drive motors. Then \<open>actuate_mech_dems\<close> raises nothing and
  afterwards: every steering id named in \<open>pos_rad\<close> has the position setpoint of its
  motor equal to the requested value; every drive id named in \<open>speed_rads\<close> has the
  position setpoint of its motor at \<open>+inf\<close> and its velocity setpoint equal to the
  requested value; ids of the other classes do nothing, in that the outcome is the one
  of the demand without them.
\<close>

theorem actuate_known_ids:
  assumes pos: "subscript dems ''pos_rad'' = Inr (PDict pos)"
      and spd: "subscript dems ''speed_rads'' = Inr (PDict spd)"
      and dpos: "distinct (map fst pos)"
      and dspd: "distinct (map fst spd)"
      and known: "\<forall>k\<in>set (map fst pos) \<union> set (map fst spd). known_act_id k"
      and lens: "length (str_motors w) = 6" "length (drv_motors w) = 6"
  shows "fst (actuate_mech_dems dems w) = None \<and>
         (\<forall>(k, v)\<in>set pos. take 3 k = ''Str'' \<longrightarrow>
            (\<exists>i. map_of act_id_motor_group_index_map k = Some i \<and>
                 position (str_motors (snd (actuate_mech_dems dems w)) ! i) = v)) \<and>
         (\<forall>(k, v)\<in>set spd. take 3 k = ''Drv'' \<longrightarrow>
            (\<exists>i. map_of act_id_motor_group_index_map k = Some i \<and>
                 position (drv_motors (snd (actuate_mech_dems dems w)) ! i) = PFloat PosInf \<and>
                 velocity (drv_motors (snd (actuate_mech_dems dems w)) ! i) = v)) \<and>
         actuate_mech_dems dems w =
           actuate_mech_dems
             (PDict [(''pos_rad'', PDict (filter (\<lambda>kv. take 3 (fst kv) = ''Str'') pos)),
                     (''speed_rads'', PDict (filter (\<lambda>kv. take 3 (fst kv) = ''Drv'') spd))]) w"
proof -
  let ?w1 = "snd (actuate_pos pos w)"
  have ok1: "fst (actuate_pos pos w) = None"
    using known lens by (intro actuate_pos_ok) auto
  have run: "actuate_mech_dems dems w = actuate_speed spd ?w1"
    using pos spd ok1 by (rule actuate_mech_dems_present)
  have ok2: "fst (actuate_speed spd ?w1) = None"
    using known lens by (intro actuate_speed_ok) auto
  have a: "fst (actuate_mech_dems dems w) = None"
    using run ok2 by simp
  have b: "\<forall>(k, v)\<in>set pos. take 3 k = ''Str'' \<longrightarrow>
            (\<exists>i. map_of act_id_motor_group_index_map k = Some i \<and>
                 position (str_motors (snd (actuate_mech_dems dems w)) ! i) = v)"
  proof (intro ballI, clarify)
    fix k v assume kv: "(k, v) \<in> set pos" "take 3 k = ''Str''"
    then have "known_act_id k" using known by force
    then obtain i where i: "map_of act_id_motor_group_index_map k = Some i"
      by (auto simp: known_lookup)
    from actuate_pos_set [OF dpos kv i ok1]
    have "position (str_motors ?w1 ! i) = v" .
    with i run show "\<exists>i. map_of act_id_motor_group_index_map k = Some i \<and>
        position (str_motors (snd (actuate_mech_dems dems w)) ! i) = v" by simp
  qed
  have c: "\<forall>(k, v)\<in>set spd. take 3 k = ''Drv'' \<longrightarrow>
            (\<exists>i. map_of act_id_motor_group_index_map k = Some i \<and>
                 position (drv_motors (snd (actuate_mech_dems dems w)) ! i) = PFloat PosInf \<and>
                 velocity (drv_motors (snd (actuate_mech_dems dems w)) ! i) = v)"
  proof (intro ballI, clarify)
    fix k v assume kv: "(k, v) \<in> set spd" "take 3 k = ''Drv''"
    then have "known_act_id k" using known by force
    then obtain i where i: "map_of act_id_motor_group_index_map k = Some i"
      by (auto simp: known_lookup)
    from actuate_speed_set [OF dspd kv i ok2] i run
    show "\<exists>i. map_of act_id_motor_group_index_map k = Some i \<and>
        position (drv_motors (snd (actuate_mech_dems dems w)) ! i) = PFloat PosInf \<and>
        velocity (drv_motors (snd (actuate_mech_dems dems w)) ! i) = v" by simp
  qed
  let ?fp = "filter (\<lambda>kv. take 3 (fst kv) = ''Str'') pos"
  let ?fs = "filter (\<lambda>kv. take 3 (fst kv) = ''Drv'') spd"
  have "actuate_mech_dems (PDict [(''pos_rad'', PDict ?fp), (''speed_rads'', PDict ?fs)]) w =
        actuate_speed ?fs (snd (actuate_pos ?fp w))"
    using ok1 by (intro actuate_mech_dems_present) (simp_all add: actuate_pos_filter)
  then have d: "actuate_mech_dems dems w =
      actuate_mech_dems (PDict [(''pos_rad'', PDict ?fp), (''speed_rads'', PDict ?fs)]) w"
    using run by (simp add: actuate_pos_filter actuate_speed_filter)
  from a b c d show ?thesis by blast
qed

theorem actuate_known_ids_witness:
  "subscript dems_known ''pos_rad'' = Inr (PDict pos_known) \<and>
   subscript dems_known ''speed_rads'' = Inr (PDict spd_known) \<and>
   distinct (map fst pos_known) \<and> distinct (map fst spd_known) \<and>
   known_act_id ''StrFL'' \<and> known_act_id ''DrvML'' \<and> known_act_id ''ArmBase'' \<and>
   known_act_id ''DrvFL'' \<and> known_act_id ''StrRR'' \<and>
   length (str_motors world0) = 6 \<and> length (drv_motors world0) = 6 \<and>
   fst (actuate_mech_dems dems_known world0) = None \<and>
   position (str_motors (snd (actuate_mech_dems dems_known world0)) ! 0) = PFloat (Finite (1 / 2)) \<and>
   position (drv_motors (snd (actuate_mech_dems dems_known world0)) ! 0) = PFloat PosInf \<and>
   velocity (drv_motors (snd (actuate_mech_dems dems_known world0)) ! 0) = PFloat (Finite 2) \<and>
   calls (snd (actuate_mech_dems dems_known world0)) =
     [SetPosition (StrMotor 0) (PFloat (Finite (1 / 2))),
      SetPosition (DrvMotor 0) (PFloat PosInf),
      SetVelocity (DrvMotor 0) (PFloat (Finite 2))]"
proof -
  have h1: "subscript dems_known ''pos_rad'' = Inr (PDict pos_known)"
    and h2: "subscript dems_known ''speed_rads'' = Inr (PDict spd_known)"
    by (simp_all add: dems_known_def)
  have h3: "distinct (map fst pos_known)" and h4: "distinct (map fst spd_known)"
    by (simp_all add: pos_known_def spd_known_def)
  have h5: "\<forall>k\<in>set (map fst pos_known) \<union> set (map fst spd_known). known_act_id k"
    by (simp add: pos_known_def spd_known_def known_act_id_def act_id_motor_group_index_map_def)
  have h6: "length (str_motors world0) = 6" and h7: "length (drv_motors world0) = 6"
    by (simp_all add: world0_def)
  from actuate_known_ids [OF h1 h2 h3 h4 h5 h6 h7]
  have "fst (actuate_mech_dems dems_known world0) = None" by blast
  moreover have "actuate_mech_dems dems_known world0 =
     (None, \<lparr>str_motors = (str_motors world0)[0 := \<lparr>position = PFloat (Finite (1 / 2)), velocity = PFloat (Finite 1)\<rparr>],
             drv_motors = (drv_motors world0)[0 := \<lparr>position = PFloat PosInf, velocity = PFloat (Finite 2)\<rparr>],
             calls = [SetPosition (StrMotor 0) (PFloat (Finite (1 / 2))),
                      SetPosition (DrvMotor 0) (PFloat PosInf),
                      SetVelocity (DrvMotor 0) (PFloat (Finite 2))]\<rparr>)"
    by (simp add: dems_known_def pos_known_def spd_known_def world0_def
      actuate_mech_dems_def act_id_motor_group_index_map_def
      str_setPosition_def drv_setPosition_def drv_setVelocity_def)
  moreover have "known_act_id ''StrFL'' \<and> known_act_id ''DrvML'' \<and> known_act_id ''ArmBase'' \<and>
      known_act_id ''DrvFL'' \<and> known_act_id ''StrRR''"
    using h5 by (simp add: pos_known_def spd_known_def)
  ultimately show ?thesis
    using h1 h2 h3 h4 h6 h7 by (simp add: world0_def)
qed

text \<open>
  C3 as stated covers every demand with known ids only. \<open>{"speed_rads": {"DrvFL": 2.0}}\<close>
  is one, and \<open>dems['pos_rad']\<close> raises \<open>KeyError\<close> on it before any setter is called:
  the velocity setpoint of the front left drive motor stays \<open>3\<close>.
\<close>

theorem speed_only_demand_not_applied:
  "known_act_id ''DrvFL'' \<and>
   dems_speed_only = PDict [(''speed_rads'', PDict [(''DrvFL'', PFloat (Finite 2))])] \<and>
   actuate_mech_dems dems_speed_only world0 = (Some KeyError, world0) \<and>
   velocity (drv_motors (snd (actuate_mech_dems dems_speed_only world0)) ! 0) = PFloat (Finite 3)"
  by (simp add: dems_speed_only_def actuate_mech_dems_def known_act_id_def
      act_id_motor_group_index_map_def world0_def)

text \<open>
  C5, as the code has it. Take a demand whose \<open>pos_rad\<close> and \<open>speed_rads\<close> are both
  present. An id outside the table whose first three characters are not \<open>Str\<close> where
  it is named in \<open>pos_rad\<close>, and not \<open>Drv\<close> where it is named in \<open>speed_rads\<close>, is
  ignored: the outcome of \<open>actuate_mech_dems\<close> (setpoints, calls and the exception, if
  any) is the one of the demand without such ids. When every id outside the table is
  of that kind, on a rover with its six steering and six drive motors,
  \<open>actuate_mech_dems\<close> raises nothing and its outcome is the one of the demand with
  only the ids of the table.
\<close>

theorem unknown_ids_of_other_class_are_ignored:
  assumes pos: "subscript dems ''pos_rad'' = Inr (PDict pos)"
      and spd: "subscript dems ''speed_rads'' = Inr (PDict spd)"
  shows "actuate_mech_dems dems w =
           actuate_mech_dems
             (PDict [(''pos_rad'',
                      PDict (filter (\<lambda>kv. known_act_id (fst kv) \<or> take 3 (fst kv) = ''Str'') pos)),
                     (''speed_rads'',
                      PDict (filter (\<lambda>kv. known_act_id (fst kv) \<or> take 3 (fst kv) = ''Drv'') spd))])
             w \<and>
         ((\<forall>k\<in>set (map fst pos). \<not> known_act_id k \<longrightarrow> take 3 k \<noteq> ''Str'') \<and>
          (\<forall>k\<in>set (map fst spd). \<not> known_act_id k \<longrightarrow> take 3 k \<noteq> ''Drv'') \<and>
          length (str_motors w) = 6 \<and> length (drv_motors w) = 6 \<longrightarrow>
          fst (actuate_mech_dems dems w) = None \<and>
          actuate_mech_dems dems w =
            actuate_mech_dems
              (PDict [(''pos_rad'', PDict (filter (\<lambda>kv. known_act_id (fst kv)) pos)),
                      (''speed_rads'', PDict (filter (\<lambda>kv. known_act_id (fst kv)) spd))]) w)"
proof (intro conjI impI)
  let ?fp = "filter (\<lambda>kv. known_act_id (fst kv) \<or> take 3 (fst kv) = ''Str'') pos"
  let ?fs = "filter (\<lambda>kv. known_act_id (fst kv) \<or> take 3 (fst kv) = ''Drv'') spd"
  have p: "actuate_pos ?fp w = actuate_pos pos w"
  proof -
    have "actuate_pos ?fp w = actuate_pos (filter (\<lambda>kv. take 3 (fst kv) = ''Str'') ?fp) w"
      by (rule actuate_pos_filter [symmetric])
    also have "\<dots> = actuate_pos (filter (\<lambda>kv. take 3 (fst kv) = ''Str'') pos) w"
      by (simp only: filter_class_keep)
    also have "\<dots> = actuate_pos pos w" by (rule actuate_pos_filter)
    finally show ?thesis .
  qed
  have s: "actuate_speed ?fs w1 = actuate_speed spd w1" for w1
  proof -
    have "actuate_speed ?fs w1 = actuate_speed (filter (\<lambda>kv. take 3 (fst kv) = ''Drv'') ?fs) w1"
      by (rule actuate_speed_filter [symmetric])
    also have "\<dots> = actuate_speed (filter (\<lambda>kv. take 3 (fst kv) = ''Drv'') spd) w1"
      by (simp only: filter_class_keep)
    also have "\<dots> = actuate_speed spd w1" by (rule actuate_speed_filter)
    finally show ?thesis .
  qed
  have "actuate_mech_dems (PDict [(''pos_rad'', PDict ?fp), (''speed_rads'', PDict ?fs)]) w =
        (case actuate_pos ?fp w of
           (Some e, w1) \<Rightarrow> (Some e, w1)
         | (None, w1) \<Rightarrow> actuate_speed ?fs w1)"
    by (rule actuate_mech_dems_both) simp_all
  moreover obtain e1 w1 where "actuate_pos pos w = (e1, w1)" by (cases "actuate_pos pos w")
  ultimately show "actuate_mech_dems dems w =
      actuate_mech_dems (PDict [(''pos_rad'', PDict ?fp), (''speed_rads'', PDict ?fs)]) w"
    using actuate_mech_dems_both [OF pos spd, of w] by (cases e1) (simp_all add: p s)
next
  assume h: "(\<forall>k\<in>set (map fst pos). \<not> known_act_id k \<longrightarrow> take 3 k \<noteq> ''Str'') \<and>
          (\<forall>k\<in>set (map fst spd). \<not> known_act_id k \<longrightarrow> take 3 k \<noteq> ''Drv'') \<and>
          length (str_motors w) = 6 \<and> length (drv_motors w) = 6"
  then have upos: "\<forall>k\<in>set (map fst pos). \<not> known_act_id k \<longrightarrow> take 3 k \<noteq> ''Str''"
    and uspd: "\<forall>k\<in>set (map fst spd). \<not> known_act_id k \<longrightarrow> take 3 k \<noteq> ''Drv''"
    and lens: "length (str_motors w) = 6" "length (drv_motors w) = 6" by blast+
  let ?kp = "filter (\<lambda>kv. known_act_id (fst kv)) pos"
  let ?ks = "filter (\<lambda>kv. known_act_id (fst kv)) spd"
  let ?w1 = "snd (actuate_pos pos w)"
  have ok1: "fst (actuate_pos pos w) = None"
    using upos lens by (intro actuate_pos_ok) auto
  have run: "actuate_mech_dems dems w = actuate_speed spd ?w1"
    using pos spd ok1 by (rule actuate_mech_dems_present)
  have ok2: "fst (actuate_speed spd ?w1) = None"
    using uspd lens by (intro actuate_speed_ok) auto
  have p: "actuate_pos ?kp w = actuate_pos pos w"
    using actuate_pos_filter [of ?kp w] actuate_pos_filter [of pos w]
          filter_class_known [OF upos] by simp
  have s: "actuate_speed ?ks ?w1 = actuate_speed spd ?w1"
    using actuate_speed_filter [of ?ks ?w1] actuate_speed_filter [of spd ?w1]
          filter_class_known [OF uspd] by simp
  have k: "actuate_mech_dems (PDict [(''pos_rad'', PDict ?kp), (''speed_rads'', PDict ?ks)]) w =
        actuate_speed ?ks (snd (actuate_pos ?kp w))"
    using ok1 p by (intro actuate_mech_dems_present) simp_all
  from run ok2 show "fst (actuate_mech_dems dems w) = None" by simp
  from run p s k show "actuate_mech_dems dems w =
      actuate_mech_dems (PDict [(''pos_rad'', PDict ?kp), (''speed_rads'', PDict ?ks)]) w"
    by simp
qed

theorem unknown_ids_of_other_class_are_ignored_witness:
  "subscript dems_other ''pos_rad'' = Inr (PDict pos_other) \<and>
   subscript dems_other ''speed_rads'' = Inr (PDict spd_other) \<and>
   map fst pos_other = [''Foo'', ''DrvZZ'', ''StrFL''] \<and>
   map fst spd_other = [''StrYY'', ''DrvFL''] \<and>
   known_act_id ''StrFL'' \<and> known_act_id ''DrvFL'' \<and>
   length (str_motors world0) = 6 \<and> length (drv_motors world0) = 6 \<and>
   \<not> known_act_id ''Foo'' \<and> \<not> known_act_id ''DrvZZ'' \<and> \<not> known_act_id ''StrYY'' \<and>
   fst (actuate_mech_dems dems_other world0) = None \<and>
   actuate_mech_dems dems_other world0 =
     actuate_mech_dems
       (PDict [(''pos_rad'', PDict [(''StrFL'', PFloat (Finite (1 / 2)))]),
               (''speed_rads'', PDict [(''DrvFL'', PFloat (Finite 2))])]) world0"
proof -
  have h1: "subscript dems_other ''pos_rad'' = Inr (PDict pos_other)"
    and h2: "subscript dems_other ''speed_rads'' = Inr (PDict spd_other)"
    by (simp_all add: dems_other_def)
  have h3: "\<forall>k\<in>set (map fst pos_other). \<not> known_act_id k \<longrightarrow> take 3 k \<noteq> ''Str''"
    and h4: "\<forall>k\<in>set (map fst spd_other). \<not> known_act_id k \<longrightarrow> take 3 k \<noteq> ''Drv''"
    by (simp_all add: pos_other_def spd_other_def known_act_id_def
                      act_id_motor_group_index_map_def)
  have h5: "length (str_motors world0) = 6" and h6: "length (drv_motors world0) = 6"
    by (simp_all add: world0_def)
  have u: "\<not> known_act_id ''Foo'' \<and> \<not> known_act_id ''DrvZZ'' \<and> \<not> known_act_id ''StrYY''"
    by (simp add: known_act_id_def act_id_motor_group_index_map_def)
  have f: "filter (\<lambda>kv. known_act_id (fst kv)) pos_other = [(''StrFL'', PFloat (Finite (1 / 2)))]"
          "filter (\<lambda>kv. known_act_id (fst kv)) spd_other = [(''DrvFL'', PFloat (Finite 2))]"
    by (simp_all add: pos_other_def spd_other_def known_act_id_def
                      act_id_motor_group_index_map_def)
  from unknown_ids_of_other_class_are_ignored [OF h1 h2, of world0] h3 h4 h5 h6
  have "fst (actuate_mech_dems dems_other world0) = None \<and>
    actuate_mech_dems dems_other world0 =
     actuate_mech_dems
       (PDict [(''pos_rad'', PDict (filter (\<lambda>kv. known_act_id (fst kv)) pos_other)),
               (''speed_rads'', PDict (filter (\<lambda>kv. known_act_id (fst kv)) spd_other))]) world0"
    by blast
  then have r: "fst (actuate_mech_dems dems_other world0) = None \<and>
    actuate_mech_dems dems_other world0 =
     actuate_mech_dems
       (PDict [(''pos_rad'', PDict [(''StrFL'', PFloat (Finite (1 / 2)))]),
               (''speed_rads'', PDict [(''DrvFL'', PFloat (Finite 2))])]) world0"
    unfolding f .
  have k: "map fst pos_other = [''Foo'', ''DrvZZ'', ''StrFL'']"
          "map fst spd_other = [''StrYY'', ''DrvFL'']"
          "known_act_id ''StrFL''" "known_act_id ''DrvFL''"
    by (simp_all add: pos_other_def spd_other_def known_act_id_def
                      act_id_motor_group_index_map_def)
  from r h1 h2 h5 h6 u k show ?thesis by blast
qed

text \<open>
  C5 as stated covers unrecognised ids that start with \<open>Str\<close> or \<open>Drv\<close> too. For
  \<open>StrXX\<close> in \<open>pos_rad\<close> the table lookup raises \<open>KeyError\<close>: the entry before it has
  been applied, the entry after it has not, and the exception leaves \<open>handle_mech\<close>.
\<close>

theorem unknown_str_id_raises:
  "\<not> known_act_id ''StrXX'' \<and>
   actuate_mech_dems dems_unknown_str world0 =
     (Some KeyError, str_setPosition 0 (PFloat (Finite (1 / 2))) world0) \<and>
   fst (handle_mech (Loaded dems_unknown_str) world0) = Inl KeyError"
  by (simp add: dems_unknown_str_def known_act_id_def act_id_motor_group_index_map_def
      actuate_mech_dems_def handle_mech_def send_string_def world0_def str_setPosition_def)

text \<open>
  C6, as the code has it. A command message that holds both \<open>pos_rad\<close> and
  \<open>speed_rads\<close>, either of them possibly empty, whose steering ids in \<open>pos_rad\<close> and
  drive ids in \<open>speed_rads\<close> are in the table, is processed without error: it is
  acknowledged, then the demands present are applied, and the handler returns \<open>True\<close>.
\<close>

theorem both_keys_present_processed:
  assumes pos: "subscript dems ''pos_rad'' = Inr (PDict pos)"
      and spd: "subscript dems ''speed_rads'' = Inr (PDict spd)"
      and kpos: "\<forall>k\<in>set (map fst pos). take 3 k = ''Str'' \<longrightarrow> known_act_id k"
      and kspd: "\<forall>k\<in>set (map fst spd). take 3 k = ''Drv'' \<longrightarrow> known_act_id k"
      and lens: "length (str_motors w) = 6" "length (drv_motors w) = 6"
  shows "handle_mech (Loaded dems) w =
           (Inr True,
            snd (actuate_speed spd (snd (actuate_pos pos (send_string ''\"DemsOk\"'' w)))))"
proof -
  let ?w0 = "send_string ''\"DemsOk\"'' w"
  let ?w1 = "snd (actuate_pos pos ?w0)"
  have l: "length (str_motors ?w0) = 6" "length (drv_motors ?w0) = 6"
    using lens by (simp_all add: send_string_def)
  have ok1: "fst (actuate_pos pos ?w0) = None"
    using kpos l by (intro actuate_pos_ok) auto
  have run: "actuate_mech_dems dems ?w0 = actuate_speed spd ?w1"
    using pos spd ok1 by (rule actuate_mech_dems_present)
  have ok2: "fst (actuate_speed spd ?w1) = None"
    using kspd l by (intro actuate_speed_ok) auto
  have ne: "dems \<noteq> PNone" using pos by auto
  obtain e w2 where r: "actuate_speed spd ?w1 = (e, w2)" by (cases "actuate_speed spd ?w1")
  with ok2 have "e = None" by simp
  with r run ne show ?thesis by (simp add: handle_mech_def)
qed

theorem both_keys_present_processed_witness:
  "subscript dems_empty_pos ''pos_rad'' = Inr (PDict []) \<and>
   subscript dems_empty_pos ''speed_rads'' = Inr (PDict [(''DrvFL'', PFloat (Finite 2))]) \<and>
   known_act_id ''DrvFL'' \<and>
   length (str_motors world0) = 6 \<and> length (drv_motors world0) = 6 \<and>
   fst (handle_mech (Loaded dems_empty_pos) world0) = Inr True \<and>
   calls (snd (handle_mech (Loaded dems_empty_pos) world0)) =
     [SendString ''\"DemsOk\"'', SetPosition (DrvMotor 0) (PFloat PosInf),
      SetVelocity (DrvMotor 0) (PFloat (Finite 2))] \<and>
   velocity (drv_motors (snd (handle_mech (Loaded dems_empty_pos) world0)) ! 0) = PFloat (Finite 2)"
proof -
  have h1: "subscript dems_empty_pos ''pos_rad'' = Inr (PDict [])"
    and h2: "subscript dems_empty_pos ''speed_rads'' = Inr (PDict [(''DrvFL'', PFloat (Finite 2))])"
    by (simp_all add: dems_empty_pos_def)
  have h3: "\<forall>k\<in>set (map fst ([] :: (string \<times> pyval) list)). take 3 k = ''Str'' \<longrightarrow> known_act_id k"
    by simp
  have h4: "\<forall>k\<in>set (map fst [(''DrvFL'', PFloat (Finite 2))]). take 3 k = ''Drv'' \<longrightarrow> known_act_id k"
    by (simp add: known_act_id_def act_id_motor_group_index_map_def)
  have h5: "length (str_motors world0) = 6" and h6: "length (drv_motors world0) = 6"
    by (simp_all add: world0_def)
  have k: "known_act_id ''DrvFL''"
    by (simp add: known_act_id_def act_id_motor_group_index_map_def)
  show ?thesis
    using both_keys_present_processed [OF h1 h2 h3 h4 h5 h6] h1 h2 k h5 h6
    by (simp add: world0_def send_string_def act_id_motor_group_index_map_def
                  drv_setPosition_def drv_setVelocity_def)
qed

text \<open>
  C6 as stated lets either key be absent. With \<open>pos_rad\<close> absent the message is
  acknowledged and \<open>dems['pos_rad']\<close> raises \<open>KeyError\<close> before anything is applied (the
  drive velocity stays \<open>3\<close>); with \<open>speed_rads\<close> absent the position demand is applied
  and \<open>dems['speed_rads']\<close> raises \<open>KeyError\<close>.
\<close>

theorem absent_key_raises:
  "handle_mech (Loaded dems_speed_only) world0 =
     (Inl KeyError, send_string ''\"DemsOk\"'' world0) \<and>
   velocity (drv_motors (snd (handle_mech (Loaded dems_speed_only) world0)) ! 0) = PFloat (Finite 3) \<and>
   handle_mech (Loaded (PDict [(''pos_rad'', PDict [(''StrFL'', PFloat (Finite (1 / 2)))])])) world0 =
     (Inl KeyError,
      str_setPosition 0 (PFloat (Finite (1 / 2))) (send_string ''\"DemsOk\"'' world0))"
  by (simp add: dems_speed_only_def handle_mech_def actuate_mech_dems_def send_string_def
      world0_def act_id_motor_group_index_map_def str_setPosition_def)

text \<open>
  C9. \<open>stop\<close> makes the velocity setpoint of every drive motor \<open>0.0\<close> and changes nothing
  else, whatever the state before: the position setpoints of the drive motors and the
  steering motors are as they were, and the only calls are \<open>setVelocity(0.0)\<close>, one for
  each drive motor.
\<close>

theorem stop_only_zeroes_drive_velocity:
  "map velocity (drv_motors (stop w)) = replicate (length (drv_motors w)) (PFloat (Finite 0)) \<and>
   map position (drv_motors (stop w)) = map position (drv_motors w) \<and>
   str_motors (stop w) = str_motors w \<and>
   calls (stop w) =
     calls w @ map (\<lambda>i. SetVelocity (DrvMotor i) (PFloat (Finite 0))) [0..<length (drv_motors w)]"
  by (simp add: stop_eq map_replicate_const comp_def)

section \<open>Properties of the camera channel\<close>

text \<open>
  C4. Whatever the pipe and the client socket deliver, and in whatever order, the events
  of the relay loop satisfy \<open>relay_ok\<close> from the idle state: while a forwarded request
  waits for its reply (the flag \<open>handling_req\<close> is set) the loop attempts no receive on
  the client socket and forwards nothing, so at most one request is in flight and a
  second request is received only after the reply to the first has been sent.
\<close>

theorem no_client_receive_while_in_flight:
  "relay_ok False (fst (cam_process image_save b64encode inputs))"
  unfolding cam_process_def by (rule relay_ok_loop)

theorem no_client_receive_while_in_flight_witness:
  "cam_process plain_save plain_b64 relay_inputs =
     ([ClientRecv (Loaded request_png), Forward request_png, Reply reply_png,
       ClientRecv RaisedAgain, ClientRecv (Loaded request_png), Forward request_png,
       ClosePipe], Stopped) \<and>
   relay_ok False
     [ClientRecv (Loaded request_png), Forward request_png, Reply reply_png,
      ClientRecv RaisedAgain, ClientRecv (Loaded request_png), Forward request_png,
      ClosePipe :: image cam_event]"
  using no_client_receive_while_in_flight [of plain_save plain_b64 relay_inputs]
  by (simp add: relay_run)

text \<open>
  C7, as the code has it. The codec and base64 are libraries: take any image codec
  that opens what it saved as \<open>png\<close> to the same image, and any transport encoding that
  its decoder inverts. Then for a bundle whose format is \<open>'png'\<close>: the encoder returns a
  reply when every frame has \<open>height * width * 4\<close> bytes and the codec encodes its image;
  and whenever it returns one, every frame has that many bytes and decoding the
  \<open>b64_data\<close> of a camera gives an image of the frame's height and width whose pixel in
  row \<open>y\<close> and column \<open>x\<close> is bytes 2, 1, 0, 3 of the pixel's four bytes in the raw
  buffer: B,G,R,A reordered to R,G,B,A, with nothing lost.
\<close>

theorem png_round_trip_of_encoded_frames:
  assumes lossless: "\<forall>img bs. image_save ''png'' img = Inr bs \<longrightarrow> image_open bs = img"
      and b64: "\<forall>bs. b64decode (b64encode bs) = bs"
      and dist: "distinct (map fst cam_data)"
      and fmt: "map_of cam_data ''format'' = Some (FormatSpec (PStr ''png''))"
  shows "(frames_encodable image_save cam_data \<longrightarrow>
            (\<exists>reply. handle_cam_send image_save b64encode cam_data = Inr reply)) \<and>
         (\<forall>reply cam_id d.
            handle_cam_send image_save b64encode cam_data = Inr reply \<and>
            (cam_id, Frame d) \<in> set cam_data \<and> cam_id \<noteq> ''format'' \<longrightarrow>
            length (raw d) = height d * width d * 4 \<and>
            (\<exists>e. map_of reply cam_id = Some e \<and>
                 img_height (image_open (b64decode (r_b64_data e))) = height d \<and>
                 img_width (image_open (b64decode (r_b64_data e))) = width d \<and>
                 length (img_pixels (image_open (b64decode (r_b64_data e)))) = height d \<and>
                 (\<forall>y<height d.
                    length (img_pixels (image_open (b64decode (r_b64_data e))) ! y) = width d \<and>
                    (\<forall>x<width d.
                       img_pixels (image_open (b64decode (r_b64_data e))) ! y ! x =
                         [raw d ! ((y * width d + x) * 4 + 2),
                          raw d ! ((y * width d + x) * 4 + 1),
                          raw d ! ((y * width d + x) * 4),
                          raw d ! ((y * width d + x) * 4 + 3)]))))"
proof (intro conjI allI impI)
  assume "frames_encodable image_save cam_data"
  then show "\<exists>reply. handle_cam_send image_save b64encode cam_data = Inr reply"
    by (rule handle_cam_send_total)
next
  fix reply cam_id d
  assume h: "handle_cam_send image_save b64encode cam_data = Inr reply \<and>
             (cam_id, Frame d) \<in> set cam_data \<and> cam_id \<noteq> ''format''"
  from cam_send_loop_entry [OF handle_cam_send_Inr dist, of image_save b64encode reply cam_id "Frame d"] h
  obtain e where e: "encode_camera image_save b64encode cam_data (Frame d) = Inr e"
                    "map_of reply cam_id = Some e" by blast
  from encode_camera_png [OF e(1) fmt] obtain a bs where
    a: "reshape (raw d) (height d) (width d) = Inr a"
    and bs: "image_save ''png'' \<lparr>img_height = height d, img_width = width d, img_pixels = reorder a\<rparr> = Inr bs"
    and data: "r_b64_data e = b64encode bs" by blast
  from a show "length (raw d) = height d * width d * 4"
    by (simp add: reshape_def split: if_splits)
  from lossless bs
  have "image_open bs = \<lparr>img_height = height d, img_width = width d, img_pixels = reorder a\<rparr>"
    by blast
  with data b64 have dec: "image_open (b64decode (r_b64_data e)) =
      \<lparr>img_height = height d, img_width = width d, img_pixels = reorder a\<rparr>" by simp
  show "\<exists>e. map_of reply cam_id = Some e \<and>
                 img_height (image_open (b64decode (r_b64_data e))) = height d \<and>
                 img_width (image_open (b64decode (r_b64_data e))) = width d \<and>
                 length (img_pixels (image_open (b64decode (r_b64_data e)))) = height d \<and>
                 (\<forall>y<height d.
                    length (img_pixels (image_open (b64decode (r_b64_data e))) ! y) = width d \<and>
                    (\<forall>x<width d.
                       img_pixels (image_open (b64decode (r_b64_data e))) ! y ! x =
                         [raw d ! ((y * width d + x) * 4 + 2),
                          raw d ! ((y * width d + x) * 4 + 1),
                          raw d ! ((y * width d + x) * 4),
                          raw d ! ((y * width d + x) * 4 + 3)]))"
    using e(2) dec reshape_reorder_shape [OF a] reshape_reorder_pixel [OF a]
    by (intro exI [of _ e]) simp
qed

theorem png_round_trip_of_encoded_frames_witness:
  "(\<forall>bs. plain_b64decode (plain_b64 bs) = bs) \<and>
   distinct (map fst bundle_png) \<and>
   map_of bundle_png ''format'' = Some (FormatSpec (PStr ''png'')) \<and>
   frames_encodable strict_save bundle_png \<and>
   raw frame_1x2 = [1, 2, 3, 4, 5, 6, 7, 8] \<and>
   handle_cam_send strict_save plain_b64 bundle_png = Inr reply_png \<and>
   (\<exists>e. map_of reply_png ''LeftNav'' = Some e \<and>
        img_pixels (plain_open (plain_b64decode (r_b64_data e))) ! 0 ! 0 = [3, 2, 1, 4] \<and>
        img_pixels (plain_open (plain_b64decode (r_b64_data e))) ! 0 ! 1 = [7, 6, 5, 8])"
proof -
  have h1: "\<forall>img bs. strict_save ''png'' img = Inr bs \<longrightarrow> plain_open bs = img"
    by (simp add: strict_save_def plain_open_def)
  have h2: "\<forall>bs. plain_b64decode (plain_b64 bs) = bs"
    by (simp add: plain_b64_def plain_b64decode_def)
  have h3: "distinct (map fst bundle_png)" by (simp add: bundle_png_def)
  have h4: "map_of bundle_png ''format'' = Some (FormatSpec (PStr ''png''))"
    by (simp add: bundle_png_def)
  have enc: "frames_encodable strict_save bundle_png"
    by (simp add: frames_encodable_def frame_encodable_def bundle_png_def frame_1x2_def
                  reshape_def strict_save_def)
  have mem: "(''LeftNav'', Frame frame_1x2) \<in> set bundle_png" "''LeftNav'' \<noteq> ''format''"
    by (simp_all add: bundle_png_def)
  have dims: "height frame_1x2 = 1" "width frame_1x2 = 2"
             "raw frame_1x2 = [1, 2, 3, 4, 5, 6, 7, 8]"
    by (simp_all add: frame_1x2_def)
  from png_round_trip_of_encoded_frames
         [where image_save = strict_save and image_open = plain_open
            and b64decode = plain_b64decode and b64encode = plain_b64
            and cam_data = bundle_png, OF h1 h2 h3 h4]
       send_png_strict mem
  obtain e where e: "map_of reply_png ''LeftNav'' = Some e"
    and px: "\<forall>y<height frame_1x2.
               length (img_pixels (plain_open (plain_b64decode (r_b64_data e))) ! y) =
                 width frame_1x2 \<and>
               (\<forall>x<width frame_1x2.
                  img_pixels (plain_open (plain_b64decode (r_b64_data e))) ! y ! x =
                    [raw frame_1x2 ! ((y * width frame_1x2 + x) * 4 + 2),
                     raw frame_1x2 ! ((y * width frame_1x2 + x) * 4 + 1),
                     raw frame_1x2 ! ((y * width frame_1x2 + x) * 4),
                     raw frame_1x2 ! ((y * width frame_1x2 + x) * 4 + 3)])"
    by blast
  from px have "img_pixels (plain_open (plain_b64decode (r_b64_data e))) ! 0 ! 0 = [3, 2, 1, 4]"
               "img_pixels (plain_open (plain_b64decode (r_b64_data e))) ! 0 ! 1 = [7, 6, 5, 8]"
    unfolding dims by simp_all
  with e h2 h3 h4 enc dims send_png_strict show ?thesis by blast
qed

text \<open>
  C7 as stated covers every framebuffer of \<open>h * w * 4\<close> bytes. The one of no rows and no
  columns is such a buffer; the encoder hands its image to the codec as it is, the
  codec raises, and no \<open>b64_data\<close> is produced.
\<close>

theorem empty_frame_refused:
  "length (raw frame_0x0) = height frame_0x0 * width frame_0x0 * 4 \<and>
   list_all frame_well_sized bundle_empty \<and>
   handle_cam_send strict_save plain_b64 bundle_empty = Inl CodecError"
  by (simp add: frame_0x0_def bundle_empty_def frame_well_sized_def handle_cam_send_def
      encode_camera_def reshape_def reorder_def strict_save_def)

text \<open>
  C8. The format specification may be a string or a mapping whose one key is the format
  name. With the mapping the encoder does what it does with the key as a string, on
  every bundle: the same exception, or the same reply but for the \<open>format\<close> field of its
  entries. And whatever the specification, every entry of a reply has exactly it in
  its \<open>format\<close> field.
\<close>

theorem format_mapping_same_as_name:
  "handle_cam_send image_save b64encode
      ((''format'', FormatSpec (PDict [(name, opts)])) # frames) =
   map_sum id
     (map (\<lambda>kv. (fst kv, r_format_update (\<lambda>_. FormatSpec (PDict [(name, opts)])) (snd kv))))
     (handle_cam_send image_save b64encode ((''format'', FormatSpec (PStr name)) # frames)) \<and>
   (\<forall>reply. handle_cam_send image_save b64encode ((''format'', FormatSpec spec) # frames) =
              Inr reply \<longrightarrow>
            list_all (\<lambda>kv. r_format (snd kv) = FormatSpec spec) reply)"
proof (intro conjI allI impI)
  let ?A = "(''format'', FormatSpec (PStr name)) # frames"
  let ?B = "(''format'', FormatSpec (PDict [(name, opts)])) # frames"
  let ?g = "\<lambda>kv. (fst kv, r_format_update (\<lambda>_. FormatSpec (PDict [(name, opts)])) (snd kv))"
  have fa: "map_of ?A ''format'' = Some (FormatSpec (PStr name))"
    and fb: "map_of ?B ''format'' = Some (FormatSpec (PDict [(name, opts)]))"
    and fn: "format_name (FormatSpec (PStr name)) = format_name (FormatSpec (PDict [(name, opts)]))"
    by simp_all
  from cam_send_loop_two_formats [OF fa fb fn, of image_save b64encode frames "[]"]
  have loop: "cam_send_loop image_save b64encode ?B ?B [] =
              map_sum id (map ?g) (cam_send_loop image_save b64encode ?A ?A [])"
    by simp
  show "handle_cam_send image_save b64encode ?B =
        map_sum id (map ?g) (handle_cam_send image_save b64encode ?A)"
  proof (cases "cam_send_loop image_save b64encode ?A ?A []")
    case (Inl e)
    with loop show ?thesis by (simp add: handle_cam_send_def)
  next
    case (Inr res)
    from cam_send_loop_echo [OF Inr fa]
    have "list_all (\<lambda>kv. r_format (snd kv) = FormatSpec (PStr name)) res" by simp
    then have sa: "list_all (\<lambda>kv. json_serialisable (r_format (snd kv))) res"
      by (induction res) auto
    have sb: "list_all (\<lambda>kv. json_serialisable (r_format (snd kv))) (map ?g res)"
      by (induction res) auto
    from Inr loop sa sb show ?thesis by (simp add: handle_cam_send_def)
  qed
next
  fix reply
  assume "handle_cam_send image_save b64encode ((''format'', FormatSpec spec) # frames) = Inr reply"
  then show "list_all (\<lambda>kv. r_format (snd kv) = FormatSpec spec) reply"
    by (rule handle_cam_send_echo) simp
qed

theorem format_mapping_same_as_name_witness:
  "handle_cam_send plain_save plain_b64
     [(''format'', FormatSpec (PStr ''png'')), (''LeftNav'', Frame frame_1x2)] =
     Inr [(''LeftNav'',
           \<lparr>r_timestamp = 1000, r_format = FormatSpec (PStr ''png''),
            r_b64_data = \<lparr>img_height = 1, img_width = 2,
                          img_pixels = [[[3, 2, 1, 4], [7, 6, 5, 8]]]\<rparr>\<rparr>)] \<and>
   handle_cam_send plain_save plain_b64
     [(''format'', FormatSpec (PDict [(''png'', PDict [])])), (''LeftNav'', Frame frame_1x2)] =
     Inr [(''LeftNav'',
           \<lparr>r_timestamp = 1000, r_format = FormatSpec (PDict [(''png'', PDict [])]),
            r_b64_data = \<lparr>img_height = 1, img_width = 2,
                          img_pixels = [[[3, 2, 1, 4], [7, 6, 5, 8]]]\<rparr>\<rparr>)]"
proof -
  have a: "handle_cam_send plain_save plain_b64
     [(''format'', FormatSpec (PStr ''png'')), (''LeftNav'', Frame frame_1x2)] =
     Inr [(''LeftNav'',
           \<lparr>r_timestamp = 1000, r_format = FormatSpec (PStr ''png''),
            r_b64_data = \<lparr>img_height = 1, img_width = 2,
                          img_pixels = [[[3, 2, 1, 4], [7, 6, 5, 8]]]\<rparr>\<rparr>)]"
    using send_png by (simp add: bundle_png_def reply_png_def)
  from format_mapping_same_as_name
         [of plain_save plain_b64 "''png''" "PDict []" "[(''LeftNav'', Frame frame_1x2)]"]
  have "handle_cam_send plain_save plain_b64
     [(''format'', FormatSpec (PDict [(''png'', PDict [])])), (''LeftNav'', Frame frame_1x2)] =
     map_sum id
      (map (\<lambda>kv. (fst kv, r_format_update (\<lambda>_. FormatSpec (PDict [(''png'', PDict [])])) (snd kv))))
      (handle_cam_send plain_save plain_b64
        [(''format'', FormatSpec (PStr ''png'')), (''LeftNav'', Frame frame_1x2)])"
    by blast
  with a show ?thesis by simp
qed

text \<open>
  C10. For every bundle (a dictionary, so its keys are distinct): a reply that
  \<open>handle_cam_send\<close> returns has as its keys the keys of the bundle other than
  \<open>'format'\<close>, in the bundle's order and each once; and a reply is returned whenever the
  frames of the bundle can be encoded.
\<close>

theorem reply_keys_are_camera_ids:
  assumes "distinct (map fst cam_data)"
  shows "(\<forall>reply. handle_cam_send image_save b64encode cam_data = Inr reply \<longrightarrow>
            map fst reply = filter (\<lambda>k. k \<noteq> ''format'') (map fst cam_data) \<and>
            distinct (map fst reply)) \<and>
         (frames_encodable image_save cam_data \<longrightarrow>
            (\<exists>reply. handle_cam_send image_save b64encode cam_data = Inr reply))"
proof (intro conjI allI impI)
  fix reply assume r: "handle_cam_send image_save b64encode cam_data = Inr reply"
  from cam_send_loop_keys [OF handle_cam_send_Inr [OF r] assms]
  show k: "map fst reply = filter (\<lambda>k. k \<noteq> ''format'') (map fst cam_data)" by simp
  from assms show "distinct (map fst reply)" unfolding k by (rule distinct_filter)
next
  assume "frames_encodable image_save cam_data"
  then show "\<exists>reply. handle_cam_send image_save b64encode cam_data = Inr reply"
    by (rule handle_cam_send_total)
qed

theorem reply_keys_are_camera_ids_witness:
  "distinct (map fst bundle_png) \<and>
   handle_cam_req cameras0 (\<lambda>n. 1000) (Some request_png) = Inr (Some bundle_png) \<and>
   frames_encodable plain_save bundle_png \<and>
   handle_cam_send plain_save plain_b64 bundle_png = Inr reply_png \<and>
   map fst bundle_png = [''format'', ''LeftNav''] \<and>
   map fst reply_png = [''LeftNav'']"
proof -
  have h: "distinct (map fst bundle_png)" by (simp add: bundle_png_def)
  have enc: "frames_encodable plain_save bundle_png"
    by (simp add: frames_encodable_def frame_encodable_def bundle_png_def frame_1x2_def
                  reshape_def plain_save_def)
  from reply_keys_are_camera_ids [OF h, of plain_save plain_b64] send_png
  have "map fst reply_png = filter (\<lambda>k. k \<noteq> ''format'') (map fst bundle_png)" by blast
  then have "map fst reply_png = [''LeftNav'']" by (simp add: bundle_png_def)
  with h enc req_png send_png show ?thesis by (simp add: bundle_png_def)
qed

end
